theory Spec2Isabelle
  imports Main
begin

section \<open>JavaScript values used by the program\<close>

text \<open>
  A remote call (Octokit, Gemini, Notion) either throws an \<open>Error\<close> carrying a message
  or returns a value.  Every \<open>try/catch\<close> of the source is a case distinction on this type.
\<close>

datatype 'a outcome = Throws string | Returns 'a

text \<open>
  A string-valued property that may be \<open>null\<close>/\<open>undefined\<close> is a \<open>string option\<close>.
  JavaScript treats \<open>null\<close>, \<open>undefined\<close> and the empty string as falsy.
\<close>

definition truthy :: "string option \<Rightarrow> bool" where
  "truthy v = (case v of None \<Rightarrow> False | Some s \<Rightarrow> s \<noteq> [])"

text \<open>Template-literal rendering of a non-negative integer: its decimal digits.\<close>

definition digit_char :: "nat \<Rightarrow> char" where
  "digit_char d = ''0123456789'' ! d"

fun show_nat :: "nat \<Rightarrow> string" where
  "show_nat n = (if n < 10 then [digit_char n] else show_nat (n div 10) @ [digit_char (n mod 10)])"

declare show_nat.simps [simp del]

definition is_digit :: "char \<Rightarrow> bool" where
  "is_digit c = (c \<in> set ''0123456789'')"

text \<open>\<open>s.replace(/\<bslash>//g, '_')\<close>: every slash becomes an underscore.\<close>

definition replace_slashes :: "string \<Rightarrow> string" where
  "replace_slashes s = map (\<lambda>c. if c = CHR ''/'' then CHR ''_'' else c) s"

text \<open>
  \<open>s.split('/')\<close>: the pieces between the separators; the result is never empty
  (\<open>''.split('/')\<close> is \<open>['']\<close>).
\<close>

fun split_on :: "char \<Rightarrow> string \<Rightarrow> string list" where
  "split_on sep [] = [[]]"
| "split_on sep (c # cs) =
     (if c = sep then [] # split_on sep cs
      else (case split_on sep cs of
              [] \<Rightarrow> [[c]]
            | p # ps \<Rightarrow> (c # p) # ps))"

section \<open>Data model\<close>

record repo_ref =
  full_name :: "string option"

record base_ref =
  repo :: "repo_ref option"

text \<open>
  The pull-request object as the program reads it.  \<open>repoFullName\<close> is the property
  \<open>fetchMergedPRsForUser\<close> adds; \<open>base\<close> is the host's own reference to the repository.
\<close>

record pull_request =
  number :: nat
  title :: string
  body :: "string option"
  merged_at :: "string option"
  html_url :: string
  base :: "base_ref option"
  repoFullName :: "string option"

record review_comment =
  rc_path :: string
  rc_body :: string
  diff_hunk :: "string option"

record changed_file =
  filename :: string
  status :: string
  additions :: nat
  deletions :: nat
  patch :: "string option"

record linked_issue =
  li_number :: nat
  li_title :: "string option"
  li_body :: "string option"

text \<open>The object \<open>enrichPR\<close> returns: the pull request spread, plus four more properties.\<close>

record enriched_pr = pull_request +
  diff :: "string option"
  reviewComments :: "review_comment list"
  linkedIssues :: "linked_issue list"
  listFiles :: "changed_file list"

record out_comment =
  oc_path :: string
  oc_body :: string
  hunkRef :: "string option"

record metadata =
  md_title :: string
  md_body :: string
  mergedAt :: "string option"
  md_number :: nat
  htmlUrl :: string

text \<open>
  The payload.  \<open>diffHunks\<close> is a JavaScript object with string keys, kept as an
  association list in insertion order; \<open>None\<close> is the omitted property.
\<close>

record llm_package =
  pk_linkedIssues :: "linked_issue list"
  pk_metadata :: metadata
  filesAndPatches :: "changed_file list"
  comments :: "out_comment list"
  diffHunks :: "(string \<times> string) list option"

section \<open>Stem derivation (\<open>prToStem\<close>)\<close>

text \<open>\<open>pr.base?.repo?.full_name\<close>\<close>

definition base_full_name :: "'a pull_request_scheme \<Rightarrow> string option" where
  "base_full_name pr =
     (case base pr of
        None \<Rightarrow> None
      | Some b \<Rightarrow> (case repo b of None \<Rightarrow> None | Some r \<Rightarrow> full_name r))"

text \<open>\<open>pr.repoFullName || pr.base?.repo?.full_name || dflt\<close>\<close>

definition repo_name_or :: "'a pull_request_scheme \<Rightarrow> string \<Rightarrow> string" where
  "repo_name_or pr dflt =
     (if truthy (repoFullName pr) then the (repoFullName pr)
      else if truthy (base_full_name pr) then the (base_full_name pr)
      else dflt)"

definition prToStem :: "'a pull_request_scheme \<Rightarrow> string" where
  "prToStem pr =
     (let repoName = repo_name_or pr ''unknown'';
          safeRepo = replace_slashes repoName;
          merged = (if truthy (merged_at pr) then take 10 (the (merged_at pr)) else ''unknown'')
      in safeRepo @ ''_PR'' @ show_nat (number pr) @ ''_'' @ merged)"

section \<open>Payload assembly (\<open>prToLLMPackage\<close>)\<close>

text \<open>
  The state of the first loop over the review comments: the \<open>Map\<close> \<open>hunkToId\<close>,
  the object \<open>diffHunks\<close> under construction and the counter \<open>hunkIndex\<close>.
\<close>

record hunk_state =
  hunkToId :: "string \<rightharpoonup> string"
  hunkTable :: "(string \<times> string) list"
  hunkIndex :: nat

text \<open>\<open>obj[k] = v\<close> on an object with string keys: overwrite in place, or append.\<close>

fun obj_set :: "string \<Rightarrow> 'v \<Rightarrow> (string \<times> 'v) list \<Rightarrow> (string \<times> 'v) list" where
  "obj_set k v [] = [(k, v)]"
| "obj_set k v (p # ps) = (if fst p = k then (k, v) # ps else p # obj_set k v ps)"

definition hunk_id :: "nat \<Rightarrow> string" where
  "hunk_id n = ''hunk_'' @ show_nat n"

fun scan_hunks :: "review_comment list \<Rightarrow> hunk_state \<Rightarrow> hunk_state" where
  "scan_hunks [] st = st"
| "scan_hunks (c # cs) st =
     (if \<not> truthy (diff_hunk c) then scan_hunks cs st
      else let h = the (diff_hunk c) in
        if hunkToId st h \<noteq> None then scan_hunks cs st
        else let idx = hunkIndex st + 1; hid = hunk_id idx in
          scan_hunks cs
            (st\<lparr>hunkToId := (hunkToId st)(h \<mapsto> hid),
                hunkTable := obj_set hid h (hunkTable st),
                hunkIndex := idx\<rparr>))"

definition hunk_init :: hunk_state where
  "hunk_init = \<lparr>hunkToId = Map.empty, hunkTable = [], hunkIndex = 0\<rparr>"

definition out_of_comment :: "(string \<rightharpoonup> string) \<Rightarrow> review_comment \<Rightarrow> out_comment" where
  "out_of_comment ids c =
     \<lparr>oc_path = rc_path c, oc_body = rc_body c,
      hunkRef = (if truthy (diff_hunk c) then ids (the (diff_hunk c)) else None)\<rparr>"

text \<open>\<open>f.patch || null\<close>: a missing or empty patch becomes \<open>null\<close>.\<close>

definition out_of_file :: "changed_file \<Rightarrow> changed_file" where
  "out_of_file f = f\<lparr>patch := (if truthy (patch f) then patch f else None)\<rparr>"

definition prToLLMPackage :: "enriched_pr \<Rightarrow> llm_package" where
  "prToLLMPackage pr =
     (let st = scan_hunks (reviewComments pr) hunk_init in
      \<lparr>pk_linkedIssues = linkedIssues pr,
       pk_metadata =
         \<lparr>md_title = title pr,
          md_body = (if truthy (body pr) then the (body pr) else []),
          mergedAt = merged_at pr,
          md_number = number pr,
          htmlUrl = html_url pr\<rparr>,
       filesAndPatches = map out_of_file (listFiles pr),
       comments = map (out_of_comment (hunkToId st)) (reviewComments pr),
       diffHunks = (if hunkTable st = [] then None else Some (hunkTable st))\<rparr>)"

section \<open>The remote pull-request host (\<open>pr-fetcher.js\<close>)\<close>

text \<open>
  The Octokit client is the collection of its endpoints, each a function from the request
  to what the call does: throw, or return the response data.  Only the parts of a response
  the program reads are kept.
\<close>

record search_item =
  repository_url :: string
  item_number :: nat

text \<open>The data of the diff request: a string, or anything else (\<open>typeof data\<close>).\<close>

datatype diff_data = DiffText string | NotText

record issue_data =
  issue_title :: "string option"
  issue_body :: "string option"

record octokit =
  users_getAuthenticated :: "string outcome"
  search_issuesAndPullRequests :: "string \<Rightarrow> nat \<Rightarrow> search_item list outcome"
  pulls_get :: "string \<Rightarrow> string \<Rightarrow> nat \<Rightarrow> pull_request outcome"
  pulls_get_diff :: "string \<Rightarrow> string option \<Rightarrow> nat \<Rightarrow> diff_data outcome"
  pulls_listReviewComments ::
    "string \<Rightarrow> string option \<Rightarrow> nat \<Rightarrow> review_comment list option outcome"
  pulls_listFiles :: "string \<Rightarrow> string option \<Rightarrow> nat \<Rightarrow> changed_file list option outcome"
  issues_get :: "string \<Rightarrow> string option \<Rightarrow> nat \<Rightarrow> issue_data outcome"

subsection \<open>\<open>fetchMergedPRsForUser\<close>\<close>

text \<open>\<open>parts.slice(-2)[0]\<close> and \<open>parts.slice(-1)[0]\<close> of a non-empty array.\<close>

definition second_last :: "'a list \<Rightarrow> 'a" where
  "second_last parts = (if 2 \<le> length parts then parts ! (length parts - 2) else hd parts)"

definition search_query :: "string \<Rightarrow> string" where
  "search_query login = ''author:'' @ login @ '' is:merged type:pr''"

definition perPage :: nat where
  "perPage = 30"

text \<open>
  The inner loop over the items of one page.  No call here is guarded: a throwing
  \<open>pulls.get\<close>, or a merged record without \<open>base.repo\<close>, ends the whole fetch.
\<close>

fun resolve_items :: "octokit \<Rightarrow> search_item list \<Rightarrow> pull_request list \<Rightarrow> pull_request list outcome" where
  "resolve_items oc [] prs = Returns prs"
| "resolve_items oc (item # items) prs =
     (let parts = split_on (CHR ''/'') (repository_url item) in
      case pulls_get oc (second_last parts) (last parts) (item_number item) of
        Throws e \<Rightarrow> Throws e
      | Returns full \<Rightarrow>
          if truthy (merged_at full) then
            (case base full of
               None \<Rightarrow> Throws ''Cannot read properties of undefined (reading 'repo')''
             | Some b \<Rightarrow>
                 (case repo b of
                    None \<Rightarrow> Throws ''Cannot read properties of undefined (reading 'full_name')''
                  | Some r \<Rightarrow> resolve_items oc items (prs @ [full\<lparr>repoFullName := full_name r\<rparr>])))
          else resolve_items oc items prs)"

text \<open>
  The \<open>while (true)\<close> loop over the result pages.  It has no bound of its own: a host that
  answers every page with a full page keeps it running, which is the value \<open>None\<close>.
\<close>

partial_function (option) search_pages ::
  "octokit \<Rightarrow> string \<Rightarrow> nat \<Rightarrow> pull_request list \<Rightarrow> pull_request list outcome option" where
  "search_pages oc login page prs =
     (case search_issuesAndPullRequests oc (search_query login) page of
        Throws e \<Rightarrow> Some (Throws e)
      | Returns items \<Rightarrow>
          if items = [] then Some (Returns prs)
          else (case resolve_items oc items prs of
                  Throws e \<Rightarrow> Some (Throws e)
                | Returns prs' \<Rightarrow>
                    if length items < perPage then Some (Returns prs')
                    else search_pages oc login (page + 1) prs'))"

definition fetchMergedPRsForUser :: "octokit \<Rightarrow> pull_request list outcome option" where
  "fetchMergedPRsForUser oc =
     (case users_getAuthenticated oc of
        Throws e \<Rightarrow> Some (Throws e)
      | Returns login \<Rightarrow> search_pages oc login 1 [])"

subsection \<open>\<open>enrichPR\<close> and its helpers\<close>

definition getPRListFiles :: "octokit \<Rightarrow> string \<Rightarrow> string option \<Rightarrow> nat \<Rightarrow> changed_file list" where
  "getPRListFiles oc owner rname pullNumber =
     (case pulls_listFiles oc owner rname pullNumber of
        Throws e \<Rightarrow> []
      | Returns d \<Rightarrow> (case d of None \<Rightarrow> [] | Some fs \<Rightarrow> fs))"

definition getPRDiff :: "octokit \<Rightarrow> string \<Rightarrow> string option \<Rightarrow> nat \<Rightarrow> string option" where
  "getPRDiff oc owner rname pullNumber =
     (case pulls_get_diff oc owner rname pullNumber of
        Throws e \<Rightarrow> None
      | Returns d \<Rightarrow> (case d of DiffText s \<Rightarrow> Some s | NotText \<Rightarrow> None))"

definition getReviewComments :: "octokit \<Rightarrow> string \<Rightarrow> string option \<Rightarrow> nat \<Rightarrow> review_comment list" where
  "getReviewComments oc owner rname pullNumber =
     (case pulls_listReviewComments oc owner rname pullNumber of
        Throws e \<Rightarrow> []
      | Returns d \<Rightarrow> (case d of None \<Rightarrow> [] | Some cs \<Rightarrow> cs))"

text \<open>\<open>parseInt(m[1], 10)\<close> on a string of decimal digits.\<close>

definition digit_val :: "char \<Rightarrow> nat" where
  "digit_val c = of_char c - 48"

definition parse_nat :: "string \<Rightarrow> nat" where
  "parse_nat ds = foldl (\<lambda>a c. 10 * a + digit_val c) 0 ds"

text \<open>
  The \<open>exec\<close> loop of \<open>/#(\<bslash>d+)/g\<close>: each \<open>#\<close> followed by at least one digit
  yields the number its longest run of digits spells; the scan resumes after the match.
\<close>

function extractLinkedIssues :: "string \<Rightarrow> nat list" where
  "extractLinkedIssues [] = []"
| "extractLinkedIssues (c # cs) =
     (if c = CHR ''#'' \<and> takeWhile is_digit cs \<noteq> []
      then parse_nat (takeWhile is_digit cs) # extractLinkedIssues (dropWhile is_digit cs)
      else extractLinkedIssues cs)"
  by pat_completeness auto
termination
  by (relation "measure length") (auto simp: length_dropWhile_le less_Suc_eq_le)

definition resolve_issue :: "octokit \<Rightarrow> string \<Rightarrow> string option \<Rightarrow> nat \<Rightarrow> linked_issue" where
  "resolve_issue oc owner rname n =
     (case issues_get oc owner rname n of
        Throws e \<Rightarrow> \<lparr>li_number = n, li_title = None, li_body = None\<rparr>
      | Returns d \<Rightarrow>
          \<lparr>li_number = n,
           li_title = Some (case issue_title d of None \<Rightarrow> [] | Some t \<Rightarrow> t),
           li_body = Some (case issue_body d of None \<Rightarrow> [] | Some b \<Rightarrow> b)\<rparr>)"

text \<open>
  \<open>enrichPR\<close>.  Each of the three facet helpers and each issue lookup catches its own
  failure, so no path of this function throws: its result is the enriched object itself.
\<close>

definition enrichPR :: "octokit \<Rightarrow> pull_request \<Rightarrow> enriched_pr" where
  "enrichPR oc pr =
     (let parts = split_on (CHR ''/'') (repo_name_or pr []);
          owner = hd parts;
          rname = (if 2 \<le> length parts then Some (parts ! 1) else None);
          pullNumber = number pr;
          pullPatch = getPRDiff oc owner rname pullNumber;
          revComments = getReviewComments oc owner rname pullNumber;
          files = getPRListFiles oc owner rname pullNumber;
          rawLinked = extractLinkedIssues (if truthy (body pr) then the (body pr) else [])
      in \<lparr>number = number pr, title = title pr, body = body pr, merged_at = merged_at pr,
          html_url = html_url pr, base = base pr, repoFullName = repoFullName pr,
          diff = pullPatch,
          reviewComments = revComments,
          linkedIssues = map (resolve_issue oc owner rname) rawLinked,
          listFiles = files\<rparr>)"

section \<open>Markdown to note-store blocks (\<open>blocks.js\<close>)\<close>

text \<open>
  The block types \<open>heading_2\<close>, \<open>bulleted_list_item\<close>, \<open>paragraph\<close> and
  \<open>divider\<close>.
\<close>

datatype block_type = Heading2 | BulletedListItem | Paragraph | Divider

text \<open>
  A rich-text object: its text content and, when it carries an \<open>annotations\<close> object,
  the \<open>bold\<close> flag of it (the other annotations are constants).
\<close>

record rich_text =
  content :: string
  annotations :: "bool option"

record block =
  btype :: block_type
  rich :: "rich_text list"

definition RICH_TEXT_LIMIT :: nat where
  "RICH_TEXT_LIMIT = 2000"

function richText :: "string \<Rightarrow> bool \<Rightarrow> rich_text list" where
  "richText remaining bold =
     (if 0 < length remaining
      then \<lparr>content = take RICH_TEXT_LIMIT remaining, annotations = Some bold\<rparr>
             # richText (drop RICH_TEXT_LIMIT remaining) bold
      else [])"
  by pat_completeness auto
termination
  by (relation "measure (\<lambda>(remaining, bold). length remaining)") (auto simp: RICH_TEXT_LIMIT_def)

declare richText.simps [simp del]

definition mk_block :: "block_type \<Rightarrow> string \<Rightarrow> bool \<Rightarrow> block" where
  "mk_block ty s bold = \<lparr>btype = ty, rich = richText s bold\<rparr>"

text \<open>
  Characters are the code units below 256.  Among them \<open>trim\<close> and the class
  \<open>\<bslash>s\<close> take the same seven as white space; the dot of a regular expression matches
  every character but the line terminators.
\<close>

definition is_space :: "char \<Rightarrow> bool" where
  "is_space c = (c \<in> {CHR 0x09, CHR 0x0A, CHR 0x0B, CHR 0x0C, CHR 0x0D, CHR 0x20, CHR 0xA0})"

definition is_dot :: "char \<Rightarrow> bool" where
  "is_dot c = (c \<noteq> CHR 0x0A \<and> c \<noteq> CHR 0x0D)"

definition trim :: "string \<Rightarrow> string" where
  "trim s = rev (dropWhile is_space (rev (dropWhile is_space s)))"

text \<open>\<open>markdown.split(/\<bslash>r?\<bslash>n/)\<close>\<close>

fun split_lines :: "string \<Rightarrow> string list" where
  "split_lines [] = [[]]"
| "split_lines [c] = (if c = CHR 0x0A then [[], []] else [[c]])"
| "split_lines (c # d # cs) =
     (if c = CHR 0x0A then [] # split_lines (d # cs)
      else if c = CHR 0x0D \<and> d = CHR 0x0A then [] # split_lines cs
      else (case split_lines (d # cs) of
              [] \<Rightarrow> [[c]]
            | p # ps \<Rightarrow> (c # p) # ps))"

text \<open>
  A backtracking match tries its alternatives in a fixed order and keeps the first that
  lets the rest of the pattern succeed.
\<close>

fun first_some :: "('a \<Rightarrow> 'b option) \<Rightarrow> 'a list \<Rightarrow> 'b option" where
  "first_some f [] = None"
| "first_some f (x # xs) = (case f x of Some y \<Rightarrow> Some y | None \<Rightarrow> first_some f xs)"

text \<open>
  \<open>/^(?:-\<bslash>s*)?\<bslash>*\<bslash>*(.+?)\<bslash>*\<bslash>*\<bslash>s*$/\<close>.
  The optional group is greedy: when the text starts with a dash it is tried with the dash
  and the longest run of white space first, then with shorter runs, and last without the
  group.  \<open>group_ends\<close> lists, in that order, how many characters the group takes.
\<close>

definition group_ends :: "string \<Rightarrow> nat list" where
  "group_ends t =
     (if t \<noteq> [] \<and> hd t = CHR ''-''
      then map Suc (rev [0..<Suc (length (takeWhile is_space (tl t)))])
      else []) @ [0]"

text \<open>
  After the opening asterisks the lazy group \<open>(.+?)\<close> takes one character, then two, and
  so on; each choice must be followed by two asterisks and white space up to the end.
\<close>

definition heading_capture :: "string \<Rightarrow> nat \<Rightarrow> string option" where
  "heading_capture r k =
     (let cap = take k r; rest = drop k r in
      if list_all is_dot cap \<and> take 2 rest = ''**'' \<and> list_all is_space (drop 2 rest)
      then Some cap else None)"

definition heading_after_group :: "string \<Rightarrow> nat \<Rightarrow> string option" where
  "heading_after_group t g =
     (let rest = drop g t in
      if take 2 rest = ''**''
      then first_some (heading_capture (drop 2 rest)) [1..<Suc (length (drop 2 rest))]
      else None)"

definition headingMatch :: "string \<Rightarrow> string option" where
  "headingMatch t = first_some (heading_after_group t) (group_ends t)"

text \<open>
  \<open>/^\<bslash>*+\<bslash>s*(.+)$/\<close>.
  Both repetitions are greedy: the asterisks are tried longest run first, and for each the
  white space longest run first; the group \<open>(.+)\<close> must then take everything that is left,
  which has to be non-empty and free of line terminators.
\<close>

definition bullet_after_stars :: "string \<Rightarrow> nat \<Rightarrow> string option" where
  "bullet_after_stars t i =
     (let rest = drop i t in
      first_some (\<lambda>j. let cap = drop j rest in
                       if cap \<noteq> [] \<and> list_all is_dot cap then Some cap else None)
        (rev [0..<Suc (length (takeWhile is_space rest))]))"

definition bulletMatch :: "string \<Rightarrow> string option" where
  "bulletMatch t =
     first_some (bullet_after_stars t)
       (rev [1..<Suc (length (takeWhile (\<lambda>c. c = CHR ''*'') t))])"

text \<open>The body of the loop over the lines, and the loop.\<close>

definition line_blocks :: "string \<Rightarrow> block list" where
  "line_blocks line =
     (let trimmed = trim line in
      if trimmed = [] then []
      else (case headingMatch trimmed of
              Some h \<Rightarrow> [mk_block Heading2 h False]
            | None \<Rightarrow>
                (case bulletMatch trimmed of
                   Some b \<Rightarrow> [mk_block BulletedListItem b False]
                 | None \<Rightarrow> [mk_block Paragraph trimmed False])))"

fun lines_loop :: "string list \<Rightarrow> block list \<Rightarrow> block list" where
  "lines_loop [] blocks = blocks"
| "lines_loop (line # rest) blocks = lines_loop rest (blocks @ line_blocks line)"

definition markdownToNotionBlocks :: "string \<Rightarrow> block list" where
  "markdownToNotionBlocks markdown = lines_loop (split_lines markdown) []"

subsection \<open>Appending a summary (\<open>sync.js\<close>, \<open>client.js\<close>)\<close>

text \<open>\<open>stem.replace(/_/g, ' / ').replace(/-/g, ' ')\<close>\<close>

definition display_title :: "string \<Rightarrow> string" where
  "display_title stem =
     map (\<lambda>c. if c = CHR ''-'' then CHR '' '' else c)
       (concat (map (\<lambda>c. if c = CHR ''_'' then '' / '' else [c]) stem))"

definition summary_blocks :: "string \<Rightarrow> string \<Rightarrow> block list" where
  "summary_blocks stem summaryMarkdown =
     [\<lparr>btype = Heading2, rich = [\<lparr>content = display_title stem, annotations = None\<rparr>]\<rparr>]
     @ markdownToNotionBlocks summaryMarkdown
     @ [\<lparr>btype = Divider, rich = []\<rparr>]"

text \<open>\<open>pageId.replace(/-/g, '')\<close>\<close>

definition clean_id :: "string \<Rightarrow> string" where
  "clean_id pageId = filter (\<lambda>c. c \<noteq> CHR ''-'') pageId"

record notion =
  blocks_children_append :: "string \<Rightarrow> block list \<Rightarrow> unit outcome"

definition appendSummaryToPage :: "notion \<Rightarrow> string \<Rightarrow> string \<Rightarrow> string \<Rightarrow> unit outcome" where
  "appendSummaryToPage nt pageId stem summaryMarkdown =
     blocks_children_append nt (clean_id pageId) (summary_blocks stem summaryMarkdown)"

section \<open>The summarizer (\<open>pr-summarizer.js\<close>)\<close>

text \<open>
  \<open>getClient\<close> throws when no credential is configured; \<open>generateContent\<close> is the
  remote call.  The prompt text sent is a fixed prefix followed by the serialized package,
  so the call is a function of the package; its \<open>text\<close> may be absent.
\<close>

record gemini =
  getClient :: "unit outcome"
  generateContent :: "llm_package \<Rightarrow> string option outcome"

definition summarizePR :: "gemini \<Rightarrow> llm_package \<Rightarrow> string outcome" where
  "summarizePR g llmPackage =
     (case getClient g of
        Throws e \<Rightarrow> Throws e
      | Returns client \<Rightarrow>
          (case generateContent g llmPackage of
             Throws e \<Rightarrow> Throws e
           | Returns response \<Rightarrow> Returns (case response of None \<Rightarrow> [] | Some t \<Rightarrow> t)))"

section \<open>The sync run (\<open>runSync\<close>) and its cache\<close>

text \<open>
  A completion marker of the cache file: the boolean \<open>runSync\<close> stores, or a page
  identifier as the page-creating path of \<open>sync.js\<close> stores in the same file.
\<close>

datatype marker = Flag bool | PageId string

fun marker_truthy :: "marker \<Rightarrow> bool" where
  "marker_truthy (Flag b) = b"
| "marker_truthy (PageId s) = (s \<noteq> [])"

type_synonym sync_cache = "string \<rightharpoonup> marker"

text \<open>\<open>cache[stem]\<close> read as a condition.\<close>

definition cache_hit :: "sync_cache \<Rightarrow> string \<Rightarrow> bool" where
  "cache_hit c stem = (case c stem of None \<Rightarrow> False | Some m \<Rightarrow> marker_truthy m)"

text \<open>
  The cache file: \<open>None\<close> when it is absent or does not parse, otherwise the object it
  holds.  Writing the file is taken to succeed, and serializing and parsing to give the
  object back.
\<close>

definition loadCache :: "sync_cache option \<Rightarrow> sync_cache" where
  "loadCache file = (case file of None \<Rightarrow> Map.empty | Some c \<Rightarrow> c)"

definition saveCache :: "sync_cache \<Rightarrow> sync_cache option" where
  "saveCache c = Some c"

text \<open>The collaborators of a run, and what the command line and the prompt resolve to.\<close>

record world =
  github :: octokit
  llm :: gemini
  note_store :: notion

record config =
  force :: bool
  NOTION_API_KEY :: "string option"
  NOTION_PAGE_ID :: "string option"
  limitArg :: "nat option"
  askHowManyPRs :: "nat \<Rightarrow> nat"

text \<open>What a run does that can be observed: the remote calls it makes and the lines it prints.\<close>

datatype remote_call =
    CallEnrich pull_request
  | CallSummarize llm_package
  | CallAppend string "block list"

datatype log_line =
    LogCached nat nat string
  | LogEnriching nat nat string nat
  | LogAppended nat nat string
  | LogFailed nat nat string string

record run_state =
  cache :: sync_cache
  cache_file :: "sync_cache option"
  calls :: "remote_call list"
  console :: "log_line list"

definition say :: "log_line \<Rightarrow> run_state \<Rightarrow> run_state" where
  "say l st = st\<lparr>console := console st @ [l]\<rparr>"

definition call :: "remote_call \<Rightarrow> run_state \<Rightarrow> run_state" where
  "call c st = st\<lparr>calls := calls st @ [c]\<rparr>"

text \<open>
  One iteration of the loop over the selected pull requests.  The body of the \<open>try\<close>
  leaves at the first call that throws; the \<open>catch\<close> prints the stem and the message.
\<close>

definition sync_body :: "world \<Rightarrow> config \<Rightarrow> string \<Rightarrow> pull_request list \<Rightarrow> nat \<Rightarrow> run_state \<Rightarrow> run_state" where
  "sync_body w cfg pageId prs i st =
     (let pr = prs ! i;
          stem = prToStem pr;
          rname = repo_name_or pr ''?''
      in if cache_hit (cache st) stem \<and> \<not> force cfg
         then say (LogCached (i + 1) (length prs) stem) st
         else
           let st1 = call (CallEnrich pr) (say (LogEnriching (i + 1) (length prs) rname (number pr)) st);
               enriched = enrichPR (github w) pr;
               pkg = prToLLMPackage enriched;
               st2 = call (CallSummarize pkg) st1
           in case summarizePR (llm w) pkg of
                Throws e \<Rightarrow> say (LogFailed (i + 1) (length prs) stem e) st2
              | Returns summary \<Rightarrow>
                  let st3 = call (CallAppend (clean_id pageId) (summary_blocks stem summary)) st2 in
                  (case appendSummaryToPage (note_store w) pageId stem summary of
                     Throws e \<Rightarrow> say (LogFailed (i + 1) (length prs) stem e) st3
                   | Returns u \<Rightarrow>
                       say (LogAppended (i + 1) (length prs) stem)
                         (st3\<lparr>cache := (cache st3)(stem \<mapsto> Flag True)\<rparr>)))"

text \<open>
  The loop \<open>for (let i = 0; i < prs.length; i++)\<close>, started at \<open>i\<close>.  The bound is a
  parameter: the run uses \<open>length prs\<close>; a smaller bound is the run interrupted before
  that iteration.
\<close>

function sync_loop :: "world \<Rightarrow> config \<Rightarrow> string \<Rightarrow> pull_request list \<Rightarrow> nat \<Rightarrow> nat \<Rightarrow> run_state \<Rightarrow> run_state" where
  "sync_loop w cfg pageId prs bound i st =
     (if i < bound then sync_loop w cfg pageId prs bound (Suc i) (sync_body w cfg pageId prs i st)
      else st)"
  by pat_completeness auto
termination
  by (relation "measure (\<lambda>(w, cfg, pageId, prs, bound, i, st). bound - i)") auto

declare sync_loop.simps [simp del]

definition chosen_limit :: "config \<Rightarrow> nat \<Rightarrow> nat" where
  "chosen_limit cfg n_total =
     (case limitArg cfg of
        None \<Rightarrow> askHowManyPRs cfg n_total
      | Some l \<Rightarrow> if 0 < l then min l n_total else askHowManyPRs cfg n_total)"

definition env_missing :: string where
  "env_missing = ''Notion env missing: set NOTION_API_KEY and NOTION_PAGE_ID (the page to append PRs to)''"

text \<open>
  The state a run starts from: the in-memory cache is the empty object under
  \<open>--force\<close>, otherwise what \<open>loadCache\<close> reads.
\<close>

definition start_state :: "config \<Rightarrow> sync_cache option \<Rightarrow> run_state" where
  "start_state cfg file =
     \<lparr>cache = (if force cfg then Map.empty else loadCache file),
      cache_file = file, calls = [], console = []\<rparr>"

text \<open>
  \<open>runSync\<close>.  It throws before any collection when the note-store configuration is
  missing, and when the collection throws; it does not return when the collection does
  not.  Otherwise it runs the loop and writes the in-memory cache to the file.
\<close>

definition runSync :: "world \<Rightarrow> config \<Rightarrow> sync_cache option \<Rightarrow> run_state outcome option" where
  "runSync w cfg file =
     (if \<not> truthy (NOTION_API_KEY cfg) \<or> \<not> truthy (NOTION_PAGE_ID cfg)
      then Some (Throws env_missing)
      else
        let pageId = the (NOTION_PAGE_ID cfg);
            st0 = start_state cfg file
        in case fetchMergedPRsForUser (github w) of
             None \<Rightarrow> None
           | Some (Throws e) \<Rightarrow> Some (Throws e)
           | Some (Returns fetched) \<Rightarrow>
               let n_total = length fetched;
                   prs = take (chosen_limit cfg n_total) fetched;
                   st = sync_loop w cfg pageId prs (length prs) 0 st0
               in Some (Returns (st\<lparr>cache_file := saveCache (cache st)\<rparr>)))"

section \<open>Notions of the specification\<close>

text \<open>
  First-seen order, as the specification words it: scanning a list, an element not met
  before is put at the end of what has been seen, an element met before changes nothing.
\<close>

fun first_seen_from :: "'a list \<Rightarrow> 'a list \<Rightarrow> 'a list" where
  "first_seen_from seen [] = seen"
| "first_seen_from seen (x # xs) =
     (if x \<in> set seen then first_seen_from seen xs else first_seen_from (seen @ [x]) xs)"

definition first_seen :: "'a list \<Rightarrow> 'a list" where
  "first_seen xs = first_seen_from [] xs"

text \<open>The non-empty diff contexts of a list of review comments, in order.\<close>

definition contexts :: "review_comment list \<Rightarrow> string list" where
  "contexts cs = map (\<lambda>c. the (diff_hunk c)) (filter (\<lambda>c. truthy (diff_hunk c)) cs)"

text \<open>The identifiers \<open>hunk_1\<close>, ..., \<open>hunk_n\<close>.\<close>

definition hunk_ids :: "nat \<Rightarrow> string list" where
  "hunk_ids n = map hunk_id [1..<Suc n]"

text \<open>The invariant of the scan: what the three variables hold when \<open>seen\<close> lists the contexts met so far.\<close>

definition hunks_of :: "string list \<Rightarrow> hunk_state" where
  "hunks_of seen =
     \<lparr>hunkToId = map_of (zip seen (hunk_ids (length seen))),
      hunkTable = zip (hunk_ids (length seen)) seen,
      hunkIndex = length seen\<rparr>"

text \<open>
  The full record a search hit resolves to, and the records of a list of hits that carry
  a merge timestamp, each with the repository name \<open>fetchMergedPRsForUser\<close> adds.
\<close>

definition resolve_hit :: "octokit \<Rightarrow> search_item \<Rightarrow> pull_request outcome" where
  "resolve_hit oc item =
     pulls_get oc (second_last (split_on (CHR ''/'') (repository_url item)))
       (last (split_on (CHR ''/'') (repository_url item))) (item_number item)"

definition merged_records :: "octokit \<Rightarrow> search_item list \<Rightarrow> pull_request list" where
  "merged_records oc items =
     concat (map (\<lambda>item. case resolve_hit oc item of
                            Throws e \<Rightarrow> []
                          | Returns full \<Rightarrow>
                              if truthy (merged_at full)
                              then [full\<lparr>repoFullName := base_full_name full\<rparr>] else [])
                 items)"

text \<open>A full record whose \<open>base.repo\<close> can be read.\<close>

definition has_base_repo :: "pull_request \<Rightarrow> bool" where
  "has_base_repo full = (case base full of None \<Rightarrow> False | Some b \<Rightarrow> repo b \<noteq> None)"

text \<open>The owner and repository name \<open>enrichPR\<close> puts into its requests.\<close>

definition pr_owner :: "pull_request \<Rightarrow> string" where
  "pr_owner pr = hd (split_on (CHR ''/'') (repo_name_or pr []))"

definition pr_repo :: "pull_request \<Rightarrow> string option" where
  "pr_repo pr =
     (if 2 \<le> length (split_on (CHR ''/'') (repo_name_or pr []))
      then Some (split_on (CHR ''/'') (repo_name_or pr []) ! 1) else None)"

text \<open>
  What processing one pull request amounts to, whatever the state of the run: the summary
  the summarizer gives for its payload, the message of the first call that throws (if any),
  and the remote calls made (the append is reached only with a summary).
\<close>

definition pr_summary :: "world \<Rightarrow> pull_request \<Rightarrow> string outcome" where
  "pr_summary w pr = summarizePR (llm w) (prToLLMPackage (enrichPR (github w) pr))"

definition pr_failure :: "world \<Rightarrow> string \<Rightarrow> pull_request \<Rightarrow> string option" where
  "pr_failure w pageId pr =
     (case pr_summary w pr of
        Throws e \<Rightarrow> Some e
      | Returns s \<Rightarrow>
          (case appendSummaryToPage (note_store w) pageId (prToStem pr) s of
             Throws e \<Rightarrow> Some e
           | Returns u \<Rightarrow> None))"

definition pr_calls :: "world \<Rightarrow> string \<Rightarrow> pull_request \<Rightarrow> remote_call list" where
  "pr_calls w pageId pr =
     [CallEnrich pr, CallSummarize (prToLLMPackage (enrichPR (github w) pr))] @
     (case pr_summary w pr of
        Throws e \<Rightarrow> []
      | Returns s \<Rightarrow> [CallAppend (clean_id pageId) (summary_blocks (prToStem pr) s)])"

text \<open>The cached-hit test of the loop.\<close>

definition skipped :: "config \<Rightarrow> sync_cache \<Rightarrow> pull_request \<Rightarrow> bool" where
  "skipped cfg c pr = (cache_hit c (prToStem pr) \<and> \<not> force cfg)"

text \<open>The effect of one iteration on the in-memory cache and on the list of remote calls.\<close>

definition cache_step :: "world \<Rightarrow> config \<Rightarrow> string \<Rightarrow> sync_cache \<Rightarrow> pull_request \<Rightarrow> sync_cache" where
  "cache_step w cfg pageId c pr =
     (if \<not> skipped cfg c pr \<and> pr_failure w pageId pr = None
      then c(prToStem pr \<mapsto> Flag True) else c)"

definition calls_step :: "world \<Rightarrow> config \<Rightarrow> string \<Rightarrow> sync_cache \<Rightarrow> pull_request \<Rightarrow> remote_call list" where
  "calls_step w cfg pageId c pr = (if skipped cfg c pr then [] else pr_calls w pageId pr)"

definition effect ::
  "world \<Rightarrow> config \<Rightarrow> string \<Rightarrow> sync_cache \<times> remote_call list \<Rightarrow> pull_request
     \<Rightarrow> sync_cache \<times> remote_call list" where
  "effect w cfg pageId s pr =
     (cache_step w cfg pageId (fst s) pr, snd s @ calls_step w cfg pageId (fst s) pr)"

fun is_append :: "remote_call \<Rightarrow> bool" where
  "is_append (CallAppend p bs) = True"
| "is_append c = False"

text \<open>
  The append call processing a pull request makes once its summary is there, and the
  stems a list of pull requests leaves in the cache: those of the pull requests whose
  processing does not fail.
\<close>

definition has_summary :: "world \<Rightarrow> pull_request \<Rightarrow> bool" where
  "has_summary w pr = (case pr_summary w pr of Throws e \<Rightarrow> False | Returns s \<Rightarrow> True)"

definition append_of :: "world \<Rightarrow> string \<Rightarrow> pull_request \<Rightarrow> remote_call" where
  "append_of w pageId pr =
     CallAppend (clean_id pageId)
       (summary_blocks (prToStem pr) (case pr_summary w pr of Throws e \<Rightarrow> [] | Returns s \<Rightarrow> s))"

definition fresh_cache :: "world \<Rightarrow> string \<Rightarrow> pull_request list \<Rightarrow> sync_cache" where
  "fresh_cache w pageId prs =
     map_of (map (\<lambda>pr. (prToStem pr, Flag True)) (filter (\<lambda>pr. pr_failure w pageId pr = None) prs))"

text \<open>The pull requests a run selects from what the collection returned.\<close>

definition selected :: "config \<Rightarrow> pull_request list \<Rightarrow> pull_request list" where
  "selected cfg fetched = take (chosen_limit cfg (length fetched)) fetched"

text \<open>
  The line shapes of the specification, on a trimmed line.  A line is wholly wrapped in
  double asterisks when, after an optional dash bullet and the white space behind it, it
  starts and ends with two asterisks that enclose at least one character; the heading text
  is what they enclose.  The text of a bulleted line is what follows the leading asterisks
  and the white space behind them, or a single asterisk when nothing follows.
\<close>

definition strip_dash :: "string \<Rightarrow> string" where
  "strip_dash t = (if t \<noteq> [] \<and> hd t = CHR ''-'' then dropWhile is_space (tl t) else t)"

definition is_wrapped :: "string \<Rightarrow> bool" where
  "is_wrapped t =
     (5 \<le> length (strip_dash t) \<and> take 2 (strip_dash t) = ''**'' \<and>
      drop (length (strip_dash t) - 2) (strip_dash t) = ''**'')"

definition heading_text :: "string \<Rightarrow> string" where
  "heading_text t = take (length (strip_dash t) - 4) (drop 2 (strip_dash t))"

definition begins_with_asterisk :: "string \<Rightarrow> bool" where
  "begins_with_asterisk t = (t \<noteq> [] \<and> hd t = CHR ''*'')"

definition bullet_text :: "string \<Rightarrow> string" where
  "bullet_text t =
     (if dropWhile is_space (dropWhile (\<lambda>c. c = CHR ''*'') t) = [] then ''*''
      else dropWhile is_space (dropWhile (\<lambda>c. c = CHR ''*'') t))"

definition line_type :: "string \<Rightarrow> block_type" where
  "line_type t =
     (if is_wrapped t then Heading2
      else if begins_with_asterisk t \<and> t \<noteq> ''*'' then BulletedListItem
      else Paragraph)"

definition line_text :: "string \<Rightarrow> string" where
  "line_text t =
     (if is_wrapped t then heading_text t
      else if begins_with_asterisk t \<and> t \<noteq> ''*'' then bullet_text t
      else t)"

section \<open>Example values\<close>

definition pr_acme :: pull_request where
  "pr_acme = \<lparr>number = 42, title = ''Add widget cache'', body = None,
     merged_at = Some ''2024-03-05T10:00:00Z'', html_url = ''https://example.test/42'',
     base = None, repoFullName = Some ''acme/widgets''\<rparr>"

definition hunk_A :: string where
  "hunk_A = ''@@ -1,3 +1,4 @@ function a()''"

definition hunk_B :: string where
  "hunk_B = ''@@ -10,2 +11,2 @@ function b()''"

definition hunk_C :: string where
  "hunk_C = ''@@ -20 +21 @@ function c()''"

definition comment_on :: "string \<Rightarrow> review_comment" where
  "comment_on h = \<lparr>rc_path = ''src/widget.js'', rc_body = ''please rename'', diff_hunk = Some h\<rparr>"

definition pr_with_comments :: "review_comment list \<Rightarrow> enriched_pr" where
  "pr_with_comments cs =
     \<lparr>number = 42, title = ''Add widget cache'', body = None,
      merged_at = Some ''2024-03-05T10:00:00Z'', html_url = ''https://example.test/42'',
      base = None, repoFullName = Some ''acme/widgets'',
      diff = None, reviewComments = cs, linkedIssues = [], listFiles = []\<rparr>"

definition hit_merged :: search_item where
  "hit_merged = \<lparr>repository_url = ''https://api.github.com/repos/acme/widgets'', item_number = 42\<rparr>"

definition hit_stale :: search_item where
  "hit_stale = \<lparr>repository_url = ''https://api.github.com/repos/acme/widgets'', item_number = 43\<rparr>"

definition full_merged :: pull_request where
  "full_merged =
     \<lparr>number = 42, title = ''Add widget cache'', body = Some ''Fixes #7'',
      merged_at = Some ''2024-03-05T10:00:00Z'', html_url = ''https://example.test/42'',
      base = Some \<lparr>repo = Some \<lparr>full_name = Some ''acme/widgets''\<rparr>\<rparr>, repoFullName = None\<rparr>"

definition full_stale :: pull_request where
  "full_stale =
     \<lparr>number = 43, title = ''Closed without merge'', body = None,
      merged_at = None, html_url = ''https://example.test/43'',
      base = Some \<lparr>repo = Some \<lparr>full_name = Some ''acme/widgets''\<rparr>\<rparr>, repoFullName = None\<rparr>"

text \<open>
  A host with one page of two hits, an answer to the diff and file-list requests, and a
  review-comments request that throws.
\<close>

definition host_example :: octokit where
  "host_example =
     \<lparr>users_getAuthenticated = Returns ''mona'',
      search_issuesAndPullRequests =
        (\<lambda>q page. if q = search_query ''mona'' \<and> page = 1 then Returns [hit_merged, hit_stale]
                   else Returns []),
      pulls_get =
        (\<lambda>owner rname n.
           if owner = ''acme'' \<and> rname = ''widgets'' \<and> n = 42 then Returns full_merged
           else if owner = ''acme'' \<and> rname = ''widgets'' \<and> n = 43 then Returns full_stale
           else Throws ''Not Found''),
      pulls_get_diff = (\<lambda>owner rname n. Returns (DiffText ''diff --git a/w.js b/w.js'')),
      pulls_listReviewComments = (\<lambda>owner rname n. Throws ''Server Error''),
      pulls_listFiles =
        (\<lambda>owner rname n. Returns (Some [\<lparr>filename = ''w.js'', status = ''modified'',
             additions = 3, deletions = 1, patch = Some ''@@ -1 +1 @@''\<rparr>])),
      issues_get = (\<lambda>owner rname n. Throws ''Not Found'')\<rparr>"

text \<open>The same host with a diff request that throws.\<close>

definition host_diff_fails :: octokit where
  "host_diff_fails = host_example\<lparr>pulls_get_diff := (\<lambda>owner rname n. Throws ''Server Error'')\<rparr>"

definition pr_merged :: pull_request where
  "pr_merged = full_merged\<lparr>repoFullName := Some ''acme/widgets''\<rparr>"

text \<open>
  Three worlds around the same host: one where the summarizer and the note store answer,
  one where the summarizer has no credential, one where the note store refuses the append.
\<close>

definition llm_ok :: gemini where
  "llm_ok = \<lparr>getClient = Returns (), generateContent = (\<lambda>pkg. Returns (Some ''**Problem**''))\<rparr>"

definition llm_unconfigured :: gemini where
  "llm_unconfigured =
     \<lparr>getClient = Throws ''Add to .env: GEMINI_API_KEY'',
      generateContent = (\<lambda>pkg. Returns (Some ''**Problem**''))\<rparr>"

definition world_ok :: world where
  "world_ok = \<lparr>github = host_example, llm = llm_ok,
                note_store = \<lparr>blocks_children_append = (\<lambda>block_id children. Returns ())\<rparr>\<rparr>"

definition world_no_llm :: world where
  "world_no_llm = world_ok\<lparr>llm := llm_unconfigured\<rparr>"

definition world_no_notion :: world where
  "world_no_notion =
     world_ok\<lparr>note_store := \<lparr>blocks_children_append = (\<lambda>block_id children. Throws ''Could not find block'')\<rparr>\<rparr>"

definition cfg_plain :: config where
  "cfg_plain = \<lparr>force = False, NOTION_API_KEY = Some ''secret_key'',
                 NOTION_PAGE_ID = Some ''0a1b-2c3d'', limitArg = None, askHowManyPRs = (\<lambda>n. n)\<rparr>"

definition cfg_force :: config where
  "cfg_force = cfg_plain\<lparr>force := True\<rparr>"

definition stem_merged :: string where
  "stem_merged = ''acme_widgets_PR42_2024-03-05''"

definition pr_second :: pull_request where
  "pr_second =
     \<lparr>number = 44, title = ''Tune widget cache'', body = None,
      merged_at = Some ''2024-04-01T08:30:00Z'', html_url = ''https://example.test/44'',
      base = Some \<lparr>repo = Some \<lparr>full_name = Some ''acme/widgets''\<rparr>\<rparr>,
      repoFullName = Some ''acme/widgets''\<rparr>"

text \<open>
  Two pull requests of different repositories: \<open>widgets\<close> of the owner \<open>mona_acme\<close>,
  and \<open>acme_widgets\<close> of the owner \<open>mona\<close>.
\<close>

definition pr_owner_underscore :: pull_request where
  "pr_owner_underscore = pr_acme\<lparr>repoFullName := Some ''mona_acme/widgets''\<rparr>"

definition pr_repo_underscore :: pull_request where
  "pr_repo_underscore = pr_acme\<lparr>repoFullName := Some ''mona/acme_widgets''\<rparr>"

definition summary_example :: string where
  "summary_example = ''**Problem**'' @ [CHR 0x0A] @ ''* bullet one'' @ [CHR 0x0A] @ ''plain text''"

text \<open>Two more variants of the host: a failing file list, and review comments that arrive.\<close>

definition host_files_fail :: octokit where
  "host_files_fail = host_example\<lparr>pulls_listFiles := (\<lambda>owner rname n. Throws ''Server Error'')\<rparr>"

definition host_comments_ok :: octokit where
  "host_comments_ok =
     host_example\<lparr>pulls_listReviewComments := (\<lambda>owner rname n. Returns (Some [comment_on hunk_A]))\<rparr>"

section \<open>Auxiliary facts\<close>

lemma replace_slashes_append: "replace_slashes (a @ b) = replace_slashes a @ replace_slashes b"
  by (simp add: replace_slashes_def)

lemma replace_slashes_id: "CHR ''/'' \<notin> set s \<Longrightarrow> replace_slashes s = s"
  by (induction s) (auto simp: replace_slashes_def)

lemma replace_slashes_Cons:
  "replace_slashes (c # s) = (if c = CHR ''/'' then CHR ''_'' else c) # replace_slashes s"
  by (simp add: replace_slashes_def)

lemma show_nat_42: "show_nat 42 = ''42''"
  by (simp add: show_nat.simps digit_char_def)

subsection \<open>Decimal rendering\<close>

lemma digit_char_inj: "a < 10 \<Longrightarrow> b < 10 \<Longrightarrow> digit_char a = digit_char b \<Longrightarrow> a = b"
proof -
  assume a: "a < 10" and b: "b < 10" and e: "digit_char a = digit_char b"
  have d: "distinct ''0123456789''" by simp
  have "length ''0123456789'' = 10" by simp
  with a b d e show ?thesis
    unfolding digit_char_def by (metis nth_eq_iff_index_eq)
qed

lemma digit_char_is_digit: "d < 10 \<Longrightarrow> is_digit (digit_char d)"
proof -
  assume "d < 10"
  then have "d < length ''0123456789''" by simp
  then show ?thesis unfolding is_digit_def digit_char_def by (rule nth_mem)
qed

lemma show_nat_nonempty: "show_nat n \<noteq> []"
  by (subst show_nat.simps) simp

lemma show_nat_digits: "list_all is_digit (show_nat n)"
proof (induction n rule: show_nat.induct)
  case (1 n)
  show ?case
  proof (cases "n < 10")
    case True
    then show ?thesis by (subst show_nat.simps) (simp add: digit_char_is_digit)
  next
    case False
    with 1 show ?thesis by (subst show_nat.simps) (simp add: digit_char_is_digit)
  qed
qed

lemma show_nat_inj: "show_nat n = show_nat m \<Longrightarrow> n = m"
proof (induction n arbitrary: m rule: show_nat.induct)
  case (1 n)
  show ?case
  proof (cases "n < 10")
    case True
    note n = this
    show ?thesis
    proof (cases "m < 10")
      case True
      with n 1(2) show ?thesis
        by (simp add: show_nat.simps [of n] show_nat.simps [of m] digit_char_inj)
    next
      case False
      with n 1(2) show ?thesis
        using show_nat_nonempty [of "m div 10"]
        by (simp add: show_nat.simps [of n] show_nat.simps [of m])
    qed
  next
    case False
    note n = this
    show ?thesis
    proof (cases "m < 10")
      case True
      with n 1(2) show ?thesis
        using show_nat_nonempty [of "n div 10"]
        by (simp add: show_nat.simps [of n] show_nat.simps [of m])
    next
      case False
      with n 1(2) have e: "show_nat (n div 10) = show_nat (m div 10)"
        and d: "digit_char (n mod 10) = digit_char (m mod 10)"
        by (simp_all add: show_nat.simps [of n] show_nat.simps [of m])
      from 1(1) [OF n e] have "n div 10 = m div 10" .
      moreover from d have "n mod 10 = m mod 10" by (simp add: digit_char_inj)
      ultimately show ?thesis by (metis div_mult_mod_eq)
    qed
  qed
qed

lemma hunk_id_inj: "hunk_id n = hunk_id m \<Longrightarrow> n = m"
  by (simp add: hunk_id_def show_nat_inj)

subsection \<open>The scan of the review comments\<close>

lemma hunk_ids_Suc: "hunk_ids (Suc n) = hunk_ids n @ [hunk_id (Suc n)]"
  by (simp add: hunk_ids_def)

lemma length_hunk_ids: "length (hunk_ids n) = n"
  by (simp add: hunk_ids_def)

lemma hunk_id_fresh: "hunk_id (Suc n) \<notin> set (hunk_ids n)"
  by (auto simp: hunk_ids_def dest: hunk_id_inj)

lemma obj_set_fresh: "k \<notin> fst ` set ps \<Longrightarrow> obj_set k v ps = ps @ [(k, v)]"
  by (induction ps) auto

lemma hunks_of_lookup: "(hunkToId (hunks_of seen) h \<noteq> None) = (h \<in> set seen)"
proof -
  have "dom (map_of (zip seen (hunk_ids (length seen)))) = set seen"
    by (simp add: dom_map_of_zip length_hunk_ids)
  then show ?thesis by (auto simp: hunks_of_def dom_def)
qed

lemma hunks_of_step:
  assumes "h \<notin> set seen"
  shows "(hunks_of seen)\<lparr>hunkToId := (hunkToId (hunks_of seen))(h \<mapsto> hunk_id (hunkIndex (hunks_of seen) + 1)),
            hunkTable := obj_set (hunk_id (hunkIndex (hunks_of seen) + 1)) h (hunkTable (hunks_of seen)),
            hunkIndex := hunkIndex (hunks_of seen) + 1\<rparr> = hunks_of (seen @ [h])"
proof -
  let ?n = "length seen"
  have keys: "fst ` set (zip (hunk_ids ?n) seen) \<subseteq> set (hunk_ids ?n)"
    by (auto dest: set_zip_leftD)
  have t: "obj_set (hunk_id (Suc ?n)) h (zip (hunk_ids ?n) seen)
             = zip (hunk_ids ?n) seen @ [(hunk_id (Suc ?n), h)]"
    using keys hunk_id_fresh [of ?n] by (intro obj_set_fresh) blast
  have z1: "zip (hunk_ids (Suc ?n)) (seen @ [h]) = zip (hunk_ids ?n) seen @ [(hunk_id (Suc ?n), h)]"
    by (simp add: hunk_ids_Suc length_hunk_ids)
  have z2: "zip (seen @ [h]) (hunk_ids (Suc ?n)) = zip seen (hunk_ids ?n) @ [(h, hunk_id (Suc ?n))]"
    by (simp add: hunk_ids_Suc length_hunk_ids)
  have nd: "map_of (zip seen (hunk_ids ?n)) h = None"
    using assms hunks_of_lookup [of seen h] by (simp add: hunks_of_def)
  have m: "map_of (zip (seen @ [h]) (hunk_ids (Suc ?n)))
             = (map_of (zip seen (hunk_ids ?n)))(h \<mapsto> hunk_id (Suc ?n))"
    unfolding z2 using nd by (auto simp: map_add_def fun_eq_iff split: option.splits)
  show ?thesis
    by (simp add: hunks_of_def t z1 m)
qed

lemma scan_hunks_hunks_of:
  "scan_hunks cs (hunks_of seen) = hunks_of (first_seen_from seen (contexts cs))"
proof (induction cs arbitrary: seen)
  case Nil
  then show ?case by (simp add: contexts_def)
next
  case (Cons c cs)
  show ?case
  proof (cases "truthy (diff_hunk c)")
    case False
    then show ?thesis using Cons.IH [of seen] by (simp add: contexts_def)
  next
    case True
    note tr = this
    let ?h = "the (diff_hunk c)"
    have ctx: "contexts (c # cs) = ?h # contexts cs" using tr by (simp add: contexts_def)
    show ?thesis
    proof (cases "?h \<in> set seen")
      case True
      then have "hunkToId (hunks_of seen) ?h \<noteq> None" using hunks_of_lookup [of seen ?h] by blast
      with tr True show ?thesis using Cons.IH [of seen] by (simp add: ctx Let_def)
    next
      case False
      then have n: "hunkToId (hunks_of seen) ?h = None"
        using hunks_of_lookup [of seen ?h] by simp
      show ?thesis
        using tr n False Cons.IH [of "seen @ [?h]"] hunks_of_step [OF False]
        by (simp add: ctx Let_def)
    qed
  qed
qed

lemma hunk_init_hunks_of: "hunk_init = hunks_of []"
  by (simp add: hunk_init_def hunks_of_def hunk_ids_def)

lemma scan_hunks_init:
  "scan_hunks cs hunk_init = hunks_of (first_seen (contexts cs))"
  by (simp add: hunk_init_hunks_of scan_hunks_hunks_of first_seen_def)

lemma hunk_id_1: "hunk_id 1 = ''hunk_1''" and hunk_id_2: "hunk_id 2 = ''hunk_2''"
  and hunk_id_3: "hunk_id 3 = ''hunk_3''"
  by (simp_all add: hunk_id_def show_nat.simps digit_char_def)

lemma hunk_ids_3: "hunk_ids (Suc 0) = [''hunk_1'']"
  "hunk_ids (Suc (Suc (Suc 0))) = [''hunk_1'', ''hunk_2'', ''hunk_3'']"
  using hunk_id_1 hunk_id_2 hunk_id_3 by (simp_all add: hunk_ids_def upt_rec numeral_2_eq_2 numeral_3_eq_3)

lemma first_seen_from_seen: "set xs \<subseteq> set seen \<Longrightarrow> first_seen_from seen xs = seen"
  by (induction xs) auto

lemma first_seen_from_distinct: "distinct seen \<Longrightarrow> distinct (first_seen_from seen xs)"
  by (induction xs arbitrary: seen) auto

lemma first_seen_from_set: "set (first_seen_from seen xs) = set seen \<union> set xs"
  by (induction xs arbitrary: seen) auto

lemma pkg_diffHunks:
  "diffHunks (prToLLMPackage pr) =
     (if first_seen (contexts (reviewComments pr)) = [] then None
      else Some (zip (hunk_ids (length (first_seen (contexts (reviewComments pr)))))
                  (first_seen (contexts (reviewComments pr)))))"
proof -
  have "zip (hunk_ids (length xs)) xs = [] \<longleftrightarrow> xs = []" for xs :: "string list"
    by (cases xs) (simp_all add: hunk_ids_def upt_rec)
  then show ?thesis
    by (simp add: prToLLMPackage_def scan_hunks_init hunks_of_def Let_def)
qed

lemma pkg_hunkRefs:
  "map hunkRef (comments (prToLLMPackage pr)) =
     map (\<lambda>c. if truthy (diff_hunk c)
               then map_of (zip (first_seen (contexts (reviewComments pr)))
                      (hunk_ids (length (first_seen (contexts (reviewComments pr))))))
                    (the (diff_hunk c))
               else None) (reviewComments pr)"
  by (simp add: prToLLMPackage_def scan_hunks_init hunks_of_def Let_def out_of_comment_def comp_def)


lemma shared_context:
  assumes "cs \<noteq> []" "h \<noteq> []" "\<forall>c\<in>set cs. diff_hunk c = Some h"
  shows "first_seen (contexts cs) = [h]"
proof -
  from assms obtain c cs' where cs: "cs = c # cs'" by (cases cs) auto
  have "set (contexts cs') \<subseteq> {h}" using assms cs by (auto simp: contexts_def)
  moreover have "contexts cs = h # contexts cs'" using assms cs by (simp add: contexts_def truthy_def)
  ultimately show ?thesis by (simp add: first_seen_def first_seen_from_seen)
qed

subsection \<open>Collecting the merged pull requests\<close>

lemma full_name_base: "base full = Some b \<Longrightarrow> repo b = Some r \<Longrightarrow> full_name r = base_full_name full"
  by (simp add: base_full_name_def)

lemma resolve_items_result:
  "resolve_items oc items prs = Returns out \<Longrightarrow> out = prs @ merged_records oc items"
proof (induction items arbitrary: prs)
  case Nil
  then show ?case by (simp add: merged_records_def)
next
  case (Cons item items)
  from Cons.prems obtain full where f: "resolve_hit oc item = Returns full"
    by (auto simp: resolve_hit_def Let_def split: outcome.splits)
  show ?case
  proof (cases "truthy (merged_at full)")
    case False
    with Cons.prems f have "resolve_items oc items prs = Returns out"
      by (simp add: resolve_hit_def Let_def)
    from Cons.IH [OF this] f False show ?thesis by (simp add: merged_records_def)
  next
    case True
    with Cons.prems f obtain b r where br: "base full = Some b" "repo b = Some r"
      and rec: "resolve_items oc items (prs @ [full\<lparr>repoFullName := full_name r\<rparr>]) = Returns out"
      by (auto simp: resolve_hit_def Let_def split: option.splits)
    from Cons.IH [OF rec] f True full_name_base [OF br] show ?thesis
      by (simp add: merged_records_def)
  qed
qed

lemma resolve_items_ok:
  "\<forall>item\<in>set items. \<exists>full. resolve_hit oc item = Returns full \<and>
       (truthy (merged_at full) \<longrightarrow> has_base_repo full) \<Longrightarrow>
   resolve_items oc items prs = Returns (prs @ merged_records oc items)"
proof (induction items arbitrary: prs)
  case Nil
  then show ?case by (simp add: merged_records_def)
next
  case (Cons item items)
  then obtain full where f: "resolve_hit oc item = Returns full"
    and b: "truthy (merged_at full) \<longrightarrow> has_base_repo full" by auto
  from Cons.prems have rest: "\<forall>item\<in>set items. \<exists>full. resolve_hit oc item = Returns full \<and>
       (truthy (merged_at full) \<longrightarrow> has_base_repo full)" by simp
  show ?case
  proof (cases "truthy (merged_at full)")
    case False
    with f Cons.IH [OF rest, of prs] show ?thesis
      using f by (simp add: resolve_hit_def [symmetric] merged_records_def Let_def)
  next
    case True
    with b obtain bb r where br: "base full = Some bb" "repo bb = Some r"
      by (auto simp: has_base_repo_def split: option.splits)
    from f True br Cons.IH [OF rest, of "prs @ [full\<lparr>repoFullName := full_name r\<rparr>]"]
      full_name_base [OF br]
    show ?thesis
      by (simp add: resolve_hit_def [symmetric] merged_records_def Let_def)
  qed
qed

lemma merged_records_merged: "p \<in> set (merged_records oc items) \<Longrightarrow> truthy (merged_at p)"
  by (auto simp: merged_records_def split: outcome.splits if_splits)

lemma search_pages_merged:
  assumes "search_pages oc login page prs = Some y"
  shows "\<forall>out. y = Returns out \<longrightarrow> (\<forall>p\<in>set prs. truthy (merged_at p)) \<longrightarrow>
           (\<forall>p\<in>set out. truthy (merged_at p))"
proof (rule search_pages.raw_induct
    [where P = "\<lambda>oc login page prs y. \<forall>out. y = Returns out \<longrightarrow>
       (\<forall>p\<in>set prs. truthy (merged_at p)) \<longrightarrow> (\<forall>p\<in>set out. truthy (merged_at p))",
     OF _ assms], goal_cases)
  case (1 sp oc login page prs y)
  show ?case
  proof (intro allI impI)
    fix out
    assume y: "y = Returns out" and m: "\<forall>p\<in>set prs. truthy (merged_at p)"
    from 1(2) y obtain items where
      s: "search_issuesAndPullRequests oc (search_query login) page = Returns items"
      by (auto split: outcome.splits)
    show "\<forall>p\<in>set out. truthy (merged_at p)"
    proof (cases "items = []")
      case True
      with 1(2) s y m show ?thesis by simp
    next
      case False
      with 1(2) s y obtain prs' where r: "resolve_items oc items prs = Returns prs'"
        by (auto split: outcome.splits)
      from resolve_items_result [OF r] m have m': "\<forall>p\<in>set prs'. truthy (merged_at p)"
        by (auto dest: merged_records_merged)
      show ?thesis
      proof (cases "length items < perPage")
        case True
        with 1(2) s y False r m' show ?thesis by simp
      next
        case short: False
        with 1(2) s False r have "sp oc login (page + 1) prs' = Some y" by simp
        from 1(1) [OF this] y m' show ?thesis by blast
      qed
    qed
  qed
qed

lemma fetch_single_page:
  assumes "users_getAuthenticated oc = Returns login"
    and "search_issuesAndPullRequests oc (search_query login) 1 = Returns items"
    and "length items < perPage"
    and "\<forall>item\<in>set items. \<exists>full. resolve_hit oc item = Returns full \<and>
           (truthy (merged_at full) \<longrightarrow> has_base_repo full)"
  shows "fetchMergedPRsForUser oc = Some (Returns (merged_records oc items))"
proof (cases "items = []")
  case True
  with assms show ?thesis
    unfolding fetchMergedPRsForUser_def
    by (subst search_pages.simps) (simp add: merged_records_def)
next
  case False
  with assms resolve_items_ok [OF assms(4), of "[]"] show ?thesis
    unfolding fetchMergedPRsForUser_def
    by (subst search_pages.simps) simp
qed

lemma resolve_hit_examples:
  "resolve_hit host_example hit_merged = Returns full_merged"
  "resolve_hit host_example hit_stale = Returns full_stale"
  by (simp_all add: resolve_hit_def host_example_def hit_merged_def hit_stale_def second_last_def)

subsection \<open>Enrichment\<close>

lemma enrichPR_facets:
  "diff (enrichPR oc pr) = getPRDiff oc (pr_owner pr) (pr_repo pr) (number pr)"
  "listFiles (enrichPR oc pr) = getPRListFiles oc (pr_owner pr) (pr_repo pr) (number pr)"
  "reviewComments (enrichPR oc pr) = getReviewComments oc (pr_owner pr) (pr_repo pr) (number pr)"
  by (simp_all add: enrichPR_def pr_owner_def pr_repo_def Let_def)

lemma enrichPR_keeps: "pull_request.truncate (enrichPR oc pr) = pr"
  by (simp add: enrichPR_def Let_def pull_request.truncate_def)

lemma pr_merged_request: "pr_owner pr_merged = ''acme''" "pr_repo pr_merged = Some ''widgets''"
  "number pr_merged = 42"
  by (simp_all add: pr_owner_def pr_repo_def pr_merged_def full_merged_def repo_name_or_def truthy_def)

subsection \<open>The loop of the sync run\<close>

lemma sync_body_cache_file: "cache_file (sync_body w cfg pageId prs i st) = cache_file st"
  by (simp add: sync_body_def Let_def say_def call_def split: outcome.splits)

lemma sync_body_cache:
  "cache (sync_body w cfg pageId prs i st) = cache_step w cfg pageId (cache st) (prs ! i)"
  by (simp add: sync_body_def Let_def say_def call_def cache_step_def skipped_def pr_failure_def
      pr_summary_def split: outcome.splits)

lemma sync_body_calls:
  "calls (sync_body w cfg pageId prs i st) = calls st @ calls_step w cfg pageId (cache st) (prs ! i)"
  by (simp add: sync_body_def Let_def say_def call_def calls_step_def skipped_def pr_calls_def
      pr_summary_def split: outcome.splits)

lemma sync_body_console:
  "console (sync_body w cfg pageId prs i st) = console st @
     (if skipped cfg (cache st) (prs ! i) then [LogCached (i + 1) (length prs) (prToStem (prs ! i))]
      else [LogEnriching (i + 1) (length prs) (repo_name_or (prs ! i) ''?'') (number (prs ! i)),
            (case pr_failure w pageId (prs ! i) of
               None \<Rightarrow> LogAppended (i + 1) (length prs) (prToStem (prs ! i))
             | Some e \<Rightarrow> LogFailed (i + 1) (length prs) (prToStem (prs ! i)) e)])"
  by (simp add: sync_body_def Let_def say_def call_def skipped_def pr_failure_def
      pr_summary_def split: outcome.splits)

lemma sync_loop_foldl:
  "sync_loop w cfg pageId prs bound i st
     = foldl (\<lambda>s j. sync_body w cfg pageId prs j s) st [i..<bound]"
proof (induction w cfg pageId prs bound i st rule: sync_loop.induct)
  case (1 w cfg pageId prs bound i st)
  show ?case
  proof (cases "i < bound")
    case True
    with 1 show ?thesis by (subst sync_loop.simps) (simp add: upt_rec [of i bound])
  next
    case False
    then show ?thesis by (subst sync_loop.simps) simp
  qed
qed

lemma foldl_body_cache_file:
  "cache_file (foldl (\<lambda>s j. sync_body w cfg pageId prs j s) st js) = cache_file st"
  by (induction js arbitrary: st) (simp_all add: sync_body_cache_file)

lemma foldl_body_effect:
  "(cache (foldl (\<lambda>s j. sync_body w cfg pageId prs j s) st js),
    calls (foldl (\<lambda>s j. sync_body w cfg pageId prs j s) st js))
     = foldl (effect w cfg pageId) (cache st, calls st) (map ((!) prs) js)"
  by (induction js arbitrary: st) (simp_all add: sync_body_cache sync_body_calls effect_def)

lemma nth_upt_take: "bound \<le> length prs \<Longrightarrow> map ((!) prs) [0..<bound] = take bound prs"
  by (metis map_nth take_map take_upt add_0)

lemma sync_loop_cache_file:
  "cache_file (sync_loop w cfg pageId prs bound i st) = cache_file st"
  by (simp add: sync_loop_foldl foldl_body_cache_file)

lemma sync_loop_effect:
  "bound \<le> length prs \<Longrightarrow>
   (cache (sync_loop w cfg pageId prs bound 0 st), calls (sync_loop w cfg pageId prs bound 0 st))
     = foldl (effect w cfg pageId) (cache st, calls st) (take bound prs)"
  by (simp add: sync_loop_foldl foldl_body_effect nth_upt_take)

lemma fetch_host_example: "fetchMergedPRsForUser host_example = Some (Returns [pr_merged])"
proof -
  have "fetchMergedPRsForUser host_example = Some (Returns (merged_records host_example [hit_merged, hit_stale]))"
    by (rule fetch_single_page [where login = "''mona''"])
       (simp_all add: resolve_hit_examples perPage_def,
        simp_all add: host_example_def full_stale_def full_merged_def has_base_repo_def truthy_def)
  then show ?thesis
    by (simp add: merged_records_def resolve_hit_examples pr_merged_def)
       (simp add: full_merged_def full_stale_def truthy_def base_full_name_def)
qed

lemma prToStem_pr_merged: "prToStem pr_merged = stem_merged"
  by (simp add: prToStem_def pr_merged_def full_merged_def repo_name_or_def truthy_def
      replace_slashes_def show_nat_42 stem_merged_def)

lemma repo_name_pr_merged: "repo_name_or pr_merged d = ''acme/widgets''"
  by (simp add: pr_merged_def full_merged_def repo_name_or_def truthy_def)

lemma pr_failure_no_llm: "pr_failure world_no_llm pageId pr = Some ''Add to .env: GEMINI_API_KEY''"
  by (simp add: pr_failure_def pr_summary_def summarizePR_def world_no_llm_def llm_unconfigured_def)

lemma pr_summary_ok: "pr_summary world_ok pr = Returns ''**Problem**''"
  "pr_summary world_no_notion pr = Returns ''**Problem**''"
  by (simp_all add: pr_summary_def summarizePR_def world_ok_def world_no_notion_def llm_ok_def)

lemma pr_failure_ok: "pr_failure world_ok pageId pr = None"
  by (simp add: pr_failure_def pr_summary_ok appendSummaryToPage_def) (simp add: world_ok_def)

lemma pr_failure_no_notion: "pr_failure world_no_notion pageId pr = Some ''Could not find block''"
  by (simp add: pr_failure_def pr_summary_ok appendSummaryToPage_def) (simp add: world_no_notion_def)

lemma cache_step_failed: "pr_failure w pageId pr \<noteq> None \<Longrightarrow> cache_step w cfg pageId c pr = c"
  by (auto simp: cache_step_def)

lemma foldl_effect_fst:
  "fst (foldl (effect w cfg pageId) s prs) = foldl (cache_step w cfg pageId) (fst s) prs"
  by (induction prs arbitrary: s) (simp_all add: effect_def)

lemma foldl_cache_step_filter:
  "foldl (cache_step w cfg pageId) c (filter (\<lambda>pr. pr_failure w pageId pr = None) prs)
     = foldl (cache_step w cfg pageId) c prs"
  by (induction prs arbitrary: c) (simp_all add: cache_step_failed)

lemma sync_loop_cache:
  "cache (sync_loop w cfg pageId prs (length prs) 0 st) = foldl (cache_step w cfg pageId) (cache st) prs"
  using sync_loop_effect [of "length prs" prs w cfg pageId st] foldl_effect_fst [of w cfg pageId "(cache st, calls st)" prs]
  by (metis fst_conv order_refl take_all)

lemma runSync_returns:
  assumes "truthy (NOTION_API_KEY cfg)" "truthy (NOTION_PAGE_ID cfg)"
    and "fetchMergedPRsForUser (github w) = Some (Returns fetched)"
  shows "runSync w cfg file =
     Some (Returns ((sync_loop w cfg (the (NOTION_PAGE_ID cfg)) (take (chosen_limit cfg (length fetched)) fetched)
                      (length (take (chosen_limit cfg (length fetched)) fetched)) 0 (start_state cfg file))
        \<lparr>cache_file := Some (cache (sync_loop w cfg (the (NOTION_PAGE_ID cfg)) (take (chosen_limit cfg (length fetched)) fetched)
                      (length (take (chosen_limit cfg (length fetched)) fetched)) 0 (start_state cfg file)))\<rparr>))"
  using assms by (simp add: runSync_def Let_def saveCache_def)

lemma cache_hit_step: "cache_hit c s \<Longrightarrow> cache_hit (cache_step w cfg pageId c pr) s"
  by (simp add: cache_step_def cache_hit_def)

lemma cache_hit_foldl: "cache_hit c s \<Longrightarrow> cache_hit (foldl (cache_step w cfg pageId) c prs) s"
  by (induction prs arbitrary: c) (simp_all add: cache_hit_step)

lemma cache_step_done:
  "pr_failure w pageId pr = None \<Longrightarrow> cache_hit (cache_step w cfg pageId c pr) (prToStem pr)"
  by (auto simp: cache_step_def skipped_def cache_hit_def)

lemma cache_hit_processed:
  "pr \<in> set prs \<Longrightarrow> pr_failure w pageId pr = None \<Longrightarrow>
   cache_hit (foldl (cache_step w cfg pageId) c prs) (prToStem pr)"
proof (induction prs arbitrary: c)
  case Nil
  then show ?case by simp
next
  case (Cons a prs)
  show ?case
  proof (cases "pr = a")
    case True
    with Cons.prems show ?thesis by (simp add: cache_hit_foldl cache_step_done)
  next
    case False
    with Cons show ?thesis by simp
  qed
qed

lemma sync_loop_prefix_cache:
  "bound \<le> length prs \<Longrightarrow>
   cache (sync_loop w cfg pageId prs bound 0 st) = foldl (cache_step w cfg pageId) (cache st) (take bound prs)"
  using sync_loop_effect [of bound prs w cfg pageId st]
    foldl_effect_fst [of w cfg pageId "(cache st, calls st)" "take bound prs"]
  by (metis fst_conv)

lemma effect_ok_first:
  "effect world_ok cfg ''0a1b-2c3d'' (Map.empty, []) pr_merged
     = ([stem_merged \<mapsto> Flag True], pr_calls world_ok ''0a1b-2c3d'' pr_merged)"
  by (simp add: effect_def cache_step_def calls_step_def skipped_def cache_hit_def pr_failure_ok
      prToStem_pr_merged)

lemma appends_ok_first:
  "filter is_append (pr_calls world_ok ''0a1b-2c3d'' pr_merged)
     = [CallAppend ''0a1b2c3d'' (summary_blocks stem_merged ''**Problem**'')]"
  by (simp add: pr_calls_def pr_summary_ok prToStem_pr_merged clean_id_def)

subsection \<open>Runs\<close>

lemma runSync_selected:
  assumes "truthy (NOTION_API_KEY cfg)" "truthy (NOTION_PAGE_ID cfg)"
    and "fetchMergedPRsForUser (github w) = Some (Returns fetched)"
  shows "runSync w cfg file =
     Some (Returns ((sync_loop w cfg (the (NOTION_PAGE_ID cfg)) (selected cfg fetched)
                      (length (selected cfg fetched)) 0 (start_state cfg file))
        \<lparr>cache_file := Some (cache (sync_loop w cfg (the (NOTION_PAGE_ID cfg)) (selected cfg fetched)
                      (length (selected cfg fetched)) 0 (start_state cfg file)))\<rparr>))"
  using assms by (simp add: runSync_def Let_def saveCache_def selected_def)

lemma sync_loop_calls:
  "calls (sync_loop w cfg pageId prs (length prs) 0 st)
     = snd (foldl (effect w cfg pageId) (cache st, calls st) prs)"
  using sync_loop_effect [of "length prs" prs w cfg pageId st]
  by (metis snd_conv order_refl take_all)

lemma foldl_effect_force:
  "force cfg \<Longrightarrow>
   snd (foldl (effect w cfg pageId) s prs) = snd s @ concat (map (pr_calls w pageId) prs)"
  by (induction prs arbitrary: s) (simp_all add: effect_def calls_step_def skipped_def)

lemma foldl_cache_step_force:
  "force cfg \<Longrightarrow>
   foldl (cache_step w cfg pageId) c prs = c ++ fresh_cache w pageId (rev prs)"
proof (induction prs arbitrary: c)
  case Nil
  then show ?case by (simp add: fresh_cache_def)
next
  case (Cons pr prs)
  have "cache_step w cfg pageId c pr ++ fresh_cache w pageId (rev prs)
          = c ++ fresh_cache w pageId (rev prs @ [pr])"
    using Cons.prems
    by (auto simp: cache_step_def skipped_def fresh_cache_def map_add_def fun_eq_iff
        split: option.splits)
  with Cons show ?case by simp
qed

lemma fresh_cache_apply:
  "fresh_cache w pageId prs s =
     (if s \<in> prToStem ` {pr \<in> set prs. pr_failure w pageId pr = None} then Some (Flag True) else None)"
  by (induction prs) (auto simp: fresh_cache_def)

lemma fresh_cache_rev: "fresh_cache w pageId (rev prs) = fresh_cache w pageId prs"
  by (rule ext) (simp add: fresh_cache_apply)

lemma forced_loop_cache:
  "force cfg \<Longrightarrow>
   cache (sync_loop w cfg pageId prs (length prs) 0 (start_state cfg file)) = fresh_cache w pageId prs"
  by (simp add: sync_loop_cache foldl_cache_step_force fresh_cache_rev start_state_def)

lemma forced_loop_calls:
  "force cfg \<Longrightarrow>
   calls (sync_loop w cfg pageId prs (length prs) 0 (start_state cfg file))
     = concat (map (pr_calls w pageId) prs)"
  by (simp add: sync_loop_calls foldl_effect_force start_state_def)

lemma appends_of_pr_calls:
  "filter is_append (pr_calls w pageId pr) = (if has_summary w pr then [append_of w pageId pr] else [])"
  by (simp add: pr_calls_def has_summary_def append_of_def split: outcome.splits)

lemma appends_of_all_calls:
  "filter is_append (concat (map (pr_calls w pageId) prs))
     = map (append_of w pageId) (filter (has_summary w) prs)"
  by (induction prs) (simp_all add: appends_of_pr_calls)


lemma sync_body_file_update:
  "sync_body w cfg pageId prs i (st\<lparr>cache_file := f\<rparr>) = (sync_body w cfg pageId prs i st)\<lparr>cache_file := f\<rparr>"
  by (simp add: sync_body_def Let_def say_def call_def split: outcome.splits)

lemma sync_loop_file_update:
  "sync_loop w cfg pageId prs bound i (st\<lparr>cache_file := f\<rparr>)
     = (sync_loop w cfg pageId prs bound i st)\<lparr>cache_file := f\<rparr>"
proof (induction w cfg pageId prs bound i st rule: sync_loop.induct)
  case (1 w cfg pageId prs bound i st)
  show ?case
  proof (cases "i < bound")
    case True
    with 1 show ?thesis
      by (simp add: sync_loop.simps [of w cfg pageId prs bound i] sync_body_file_update)
  next
    case False
    then show ?thesis by (simp add: sync_loop.simps [of w cfg pageId prs bound i])
  qed
qed

lemma start_state_file: "start_state cfg file = (start_state cfg None)\<lparr>cache_file := file\<rparr>" if "force cfg"
  using that by (simp add: start_state_def)

lemma forced_run_ignores_file:
  assumes "force cfg"
  shows "runSync w cfg file = runSync w cfg None"
proof -
  have "(sync_loop w cfg pageId prs b 0 (start_state cfg file))\<lparr>cache_file := g\<rparr>
      = (sync_loop w cfg pageId prs b 0 (start_state cfg None))\<lparr>cache_file := g\<rparr>" for pageId prs b g
    by (subst start_state_file [OF assms]) (simp add: sync_loop_file_update)
  moreover have "cache (sync_loop w cfg pageId prs b 0 (start_state cfg file))
      = cache (sync_loop w cfg pageId prs b 0 (start_state cfg None))" for pageId prs b
    by (subst start_state_file [OF assms]) (simp add: sync_loop_file_update)
  ultimately show ?thesis
    by (simp add: runSync_def Let_def saveCache_def split: option.splits outcome.splits)
qed

lemma sync_loop_single:
  "sync_loop w cfg pageId [pr] (Suc 0) 0 st = sync_body w cfg pageId [pr] 0 st"
  by (simp add: sync_loop.simps [of _ _ _ _ _ 0] sync_loop.simps [of _ _ _ _ _ "Suc 0"])

lemma selected_plain: "selected cfg_plain fetched = fetched" "selected cfg_force fetched = fetched"
  by (simp_all add: selected_def chosen_limit_def cfg_plain_def cfg_force_def)

lemma cfg_keys:
  "truthy (NOTION_API_KEY cfg_plain)" "truthy (NOTION_PAGE_ID cfg_plain)"
  "truthy (NOTION_API_KEY cfg_force)" "truthy (NOTION_PAGE_ID cfg_force)"
  "the (NOTION_PAGE_ID cfg_plain) = ''0a1b-2c3d''" "the (NOTION_PAGE_ID cfg_force) = ''0a1b-2c3d''"
  "force cfg_force" "\<not> force cfg_plain"
  by (simp_all add: cfg_plain_def cfg_force_def truthy_def)

lemma worlds_github: "github world_ok = host_example" "github world_no_llm = host_example"
  "github world_no_notion = host_example"
  by (simp_all add: world_ok_def world_no_llm_def world_no_notion_def)

lemma pr_summary_no_llm: "pr_summary world_no_llm pr = Throws ''Add to .env: GEMINI_API_KEY''"
  by (simp add: pr_summary_def summarizePR_def world_no_llm_def llm_unconfigured_def)

lemma pr_merged_number: "number pr_merged = 42"
  by (simp add: pr_merged_def full_merged_def)

lemma foldl_effect_stable:
  "\<forall>pr\<in>set ps. cache_step w cfg pageId c pr = c \<Longrightarrow>
   foldl (effect w cfg pageId) (c, cl) ps
     = (c, cl @ concat (map (pr_calls w pageId) (filter (\<lambda>pr. \<not> skipped cfg c pr) ps)))"
  by (induction ps arbitrary: cl) (simp_all add: effect_def calls_step_def)

lemma cache_step_after_run:
  assumes "\<not> force cfg" "pr \<in> set prs"
  shows "cache_step w cfg pageId (foldl (cache_step w cfg pageId) c prs) pr
           = foldl (cache_step w cfg pageId) c prs"
proof (cases "pr_failure w pageId pr = None")
  case True
  from cache_hit_processed [OF assms(2) True]
  have "skipped cfg (foldl (cache_step w cfg pageId) c prs) pr"
    using assms(1) by (simp add: skipped_def)
  then show ?thesis by (simp add: cache_step_def)
next
  case False
  then show ?thesis by (simp add: cache_step_failed)
qed

lemma second_run_effect:
  assumes "\<not> force cfg"
  shows "foldl (effect w cfg pageId) (foldl (cache_step w cfg pageId) c prs, []) prs
     = (foldl (cache_step w cfg pageId) c prs,
        concat (map (pr_calls w pageId)
          (filter (\<lambda>pr. \<not> cache_hit (foldl (cache_step w cfg pageId) c prs) (prToStem pr)) prs)))"
  using foldl_effect_stable [of prs w cfg pageId "foldl (cache_step w cfg pageId) c prs" "[]"]
    cache_step_after_run [OF assms, of _ prs w pageId c] assms
  by (simp add: skipped_def)

lemma start_state_plain:
  "\<not> force cfg \<Longrightarrow> cache (start_state cfg file) = loadCache file"
  "calls (start_state cfg file) = []"
  by (simp_all add: start_state_def)

subsection \<open>Reading a stem back\<close>

lemma takeWhile_stop:
  "(\<And>x. x \<in> set xs \<Longrightarrow> P x) \<Longrightarrow> \<not> P y \<Longrightarrow> takeWhile P (xs @ y # ys) = xs"
  by (simp add: takeWhile_append2)

lemma show_nat_all_digits: "x \<in> set (show_nat n) \<Longrightarrow> is_digit x"
  using show_nat_digits [of n] by (simp add: list_all_iff)

lemma digits_then_R: "takeWhile is_digit (rev (show_nat n) @ CHR ''R'' # t) = rev (show_nat n)"
proof (rule takeWhile_stop)
  show "is_digit x" if "x \<in> set (rev (show_nat n))" for x
    using that by (simp add: show_nat_all_digits)
  show "\<not> is_digit CHR ''R''" by (simp add: is_digit_def)
qed

lemma number_slot:
  assumes "a @ ''_PR'' @ show_nat n = b @ ''_PR'' @ show_nat m"
  shows "a = b \<and> n = m"
proof -
  have "rev (show_nat n) @ CHR ''R'' # (''P_'' @ rev a) = rev (show_nat m) @ CHR ''R'' # (''P_'' @ rev b)"
    using arg_cong [OF assms, of rev] by simp
  then have "takeWhile is_digit (rev (show_nat n) @ CHR ''R'' # (''P_'' @ rev a))
           = takeWhile is_digit (rev (show_nat m) @ CHR ''R'' # (''P_'' @ rev b))" by (rule arg_cong)
  then have "rev (show_nat n) = rev (show_nat m)"
    unfolding digits_then_R .
  then have e: "show_nat n = show_nat m" by simp
  with assms show ?thesis by (simp add: show_nat_inj)
qed

lemma owner_slot:
  assumes "o1 @ ''_'' @ r1 = o2 @ ''_'' @ r2" "CHR ''_'' \<notin> set o1" "CHR ''_'' \<notin> set o2"
  shows "o1 = o2 \<and> r1 = r2"
proof -
  have t: "takeWhile (\<lambda>c. c \<noteq> CHR ''_'') (ow @ CHR ''_'' # r) = ow" if "CHR ''_'' \<notin> set ow" for ow r
    by (rule takeWhile_stop) (use that in auto)
  have "takeWhile (\<lambda>c. c \<noteq> CHR ''_'') (o1 @ CHR ''_'' # r1) = takeWhile (\<lambda>c. c \<noteq> CHR ''_'') (o2 @ CHR ''_'' # r2)"
    using assms(1) by simp
  then have "o1 = o2" unfolding t [OF assms(2)] t [OF assms(3)] .
  with assms(1) show ?thesis by simp
qed

lemma stem_well_formed:
  assumes "repoFullName p = Some (ow @ ''/'' @ rn)" "CHR ''/'' \<notin> set ow" "CHR ''/'' \<notin> set rn"
    and "merged_at p = Some m" "10 \<le> length m"
  shows "prToStem p = (ow @ ''_'' @ rn) @ ''_PR'' @ show_nat (number p) @ ''_'' @ take 10 m"
proof -
  have "repo_name_or p ''unknown'' = ow @ ''/'' @ rn" using assms(1) by (simp add: repo_name_or_def truthy_def)
  moreover have "truthy (merged_at p)" using assms(4,5) by (auto simp: truthy_def)
  ultimately show ?thesis using assms
    by (simp add: prToStem_def replace_slashes_append replace_slashes_Cons replace_slashes_id)
qed

subsection \<open>The patterns of the markdown lines\<close>

lemma first_some_none: "(\<And>x. x \<in> set xs \<Longrightarrow> f x = None) \<Longrightarrow> first_some f xs = None"
  by (induction xs) simp_all

lemma first_some_head: "(\<And>x. x \<in> set xs \<Longrightarrow> f x = None) \<Longrightarrow> first_some f (k # xs) = f k"
  by (cases "f k") (simp_all add: first_some_none)

lemma first_some_only:
  "(\<And>x. x \<in> set xs \<Longrightarrow> x \<noteq> k \<Longrightarrow> f x = None) \<Longrightarrow> k \<in> set xs \<Longrightarrow> first_some f xs = f k"
proof (induction xs)
  case Nil
  then show ?case by simp
next
  case (Cons a xs)
  show ?case
  proof (cases "a = k")
    case True
    show ?thesis
    proof (cases "f k")
      case None
      have "first_some f xs = None"
      proof (rule first_some_none)
        fix x assume x: "x \<in> set xs"
        show "f x = None"
        proof (cases "x = k")
          case True
          with None show ?thesis by simp
        next
          case False
          with Cons.prems(1) x show ?thesis by simp
        qed
      qed
      with None True show ?thesis by simp
    next
      case (Some y)
      with True show ?thesis by simp
    qed
  next
    case False
    with Cons.prems have "f a = None" "k \<in> set xs" by auto
    with Cons show ?thesis by simp
  qed
qed

lemma trim_last: "trim s \<noteq> [] \<Longrightarrow> \<not> is_space (last (trim s))"
  by (simp add: trim_def last_rev hd_dropWhile)


text \<open>The capture of the heading pattern behind the opening asterisks.\<close>

lemma heading_capture_end:
  assumes ns: "r \<noteq> [] \<Longrightarrow> \<not> is_space (last r)" and k: "heading_capture r k = Some c"
  shows "k + 2 = length r \<and> drop k r = ''**'' \<and> c = take k r"
proof -
  from k have t: "take 2 (drop k r) = ''**''" and sp: "list_all is_space (drop 2 (drop k r))"
    and c: "c = take k r"
    by (auto simp: heading_capture_def Let_def split: if_splits)
  from t have "length (take 2 (drop k r)) = 2" by simp
  then have le: "k + 2 \<le> length r" by simp
  have "\<not> k + 2 < length r"
  proof
    assume lt: "k + 2 < length r"
    then have ne: "drop (k + 2) r \<noteq> []" by simp
    from lt have "last (drop (k + 2) r) = last r" by simp
    moreover from lt have "r \<noteq> []" by auto
    ultimately have "\<not> is_space (last (drop (k + 2) r))" using ns by simp
    moreover have "is_space (last (drop (k + 2) r))"
    proof -
      from ne have "last (drop (k + 2) r) \<in> set (drop (k + 2) r)" by (rule last_in_set)
      moreover have "drop 2 (drop k r) = drop (k + 2) r" by (simp add: add.commute)
      ultimately show ?thesis using sp by (simp only: list_all_iff)
    qed
    ultimately show False by simp
  qed
  with le have e: "k + 2 = length r" by simp
  then have "length (drop k r) = 2" by simp
  then have "take 2 (drop k r) = drop k r" by simp
  with t e c show ?thesis by simp
qed

lemma heading_capture_first:
  assumes ns: "r \<noteq> [] \<Longrightarrow> \<not> is_space (last r)" and dots: "list_all is_dot r"
  shows "first_some (heading_capture r) [1..<Suc (length r)]
           = (if 3 \<le> length r \<and> drop (length r - 2) r = ''**'' then Some (take (length r - 2) r) else None)"
proof (cases "3 \<le> length r \<and> drop (length r - 2) r = ''**''")
  case True
  let ?k = "length r - 2"
  have other: "heading_capture r x = None" if "x \<noteq> ?k" for x
  proof (cases "heading_capture r x")
    case None
    then show ?thesis .
  next
    case (Some c)
    from heading_capture_end [OF ns Some] have "x + 2 = length r" by simp
    then have "x = length r - 2" by arith
    with that show ?thesis by simp
  qed
  have mem: "?k \<in> set [1..<Suc (length r)]" using True by auto
  have "list_all is_dot (take ?k r)" using dots by (auto simp: list_all_iff dest: in_set_takeD)
  then have here: "heading_capture r ?k = Some (take ?k r)"
    using True by (simp add: heading_capture_def Let_def)
  have "first_some (heading_capture r) [1..<Suc (length r)] = heading_capture r ?k"
    by (rule first_some_only [OF other mem])
  with here True show ?thesis by simp
next
  case False
  have "heading_capture r x = None" if "x \<in> set [1..<Suc (length r)]" for x
  proof (cases "heading_capture r x")
    case None
    then show ?thesis .
  next
    case (Some c)
    from heading_capture_end [OF ns Some] have e: "x + 2 = length r" and d: "drop x r = ''**''"
      by simp_all
    from e have x: "x = length r - 2" by arith
    from that have "1 \<le> x" by auto
    with e have "3 \<le> length r" by arith
    with d x False have False by simp
    then show ?thesis ..
  qed
  then have "first_some (heading_capture r) [1..<Suc (length r)] = None"
    by (intro first_some_none)
  with False show ?thesis by simp
qed

lemma space_before_length:
  "j < length (takeWhile is_space u) \<Longrightarrow> is_space (u ! j)"
proof -
  assume j: "j < length (takeWhile is_space u)"
  then have "takeWhile is_space u ! j \<in> set (takeWhile is_space u)" by (rule nth_mem)
  then have "is_space (takeWhile is_space u ! j)" by (rule set_takeWhileD [THEN conjunct2])
  with j show ?thesis by (simp add: takeWhile_nth)
qed

lemma star_not_space: "\<not> is_space CHR ''*''"
  by (simp add: is_space_def)

lemma first_some_single: "first_some f [k] = f k"
  by (cases "f k") simp_all

lemma headingMatch_strip:
  "headingMatch t =
     (if take 2 (strip_dash t) = ''**''
      then first_some (heading_capture (drop 2 (strip_dash t)))
             [1..<Suc (length (drop 2 (strip_dash t)))]
      else None)"
proof (cases "t \<noteq> [] \<and> hd t = CHR ''-''")
  case False
  then have "group_ends t = [0]" "strip_dash t = t"
    by (auto simp: group_ends_def strip_dash_def)
  then show ?thesis
    by (simp add: headingMatch_def first_some_single heading_after_group_def Let_def del: upt_Suc first_some.simps)
next
  case True
  then obtain u where t: "t = CHR ''-'' # u" by (cases t) auto
  let ?w = "length (takeWhile is_space u)"
  have ge: "group_ends t = Suc ?w # (map Suc (rev [0..<?w]) @ [0])"
    by (simp add: group_ends_def t)
  have sd: "strip_dash t = drop (Suc ?w) t"
    by (simp add: strip_dash_def t dropWhile_eq_drop)
  have others: "heading_after_group t g = None" if "g \<in> set (map Suc (rev [0..<?w]) @ [0])" for g
  proof (cases g)
    case 0
    then show ?thesis by (simp add: heading_after_group_def t)
  next
    case (Suc j)
    with that have j: "j < ?w" by auto
    then have ju: "j < length u" using length_takeWhile_le [of is_space u] by simp
    have "drop g t = u ! j # drop (Suc j) u" using Suc ju by (simp add: t Cons_nth_drop_Suc)
    moreover have "u ! j \<noteq> CHR ''*''" using space_before_length [OF j] star_not_space by auto
    ultimately show ?thesis by (simp add: heading_after_group_def)
  qed
  have "headingMatch t = heading_after_group t (Suc ?w)"
    unfolding headingMatch_def ge by (rule first_some_head) (rule others)
  then show ?thesis by (simp add: heading_after_group_def Let_def sd del: upt_Suc)
qed

lemma strip_dash_suffix: "\<exists>g. strip_dash t = drop g t"
proof (cases "t \<noteq> [] \<and> hd t = CHR ''-''")
  case True
  then obtain u where t: "t = CHR ''-'' # u" by (cases t) auto
  have "strip_dash t = drop (Suc (length (takeWhile is_space u))) t"
    by (simp add: strip_dash_def t dropWhile_eq_drop)
  then show ?thesis ..
next
  case False
  then have "strip_dash t = drop 0 t" by (auto simp: strip_dash_def)
  then show ?thesis ..
qed

lemma drop_keeps:
  assumes "\<not> is_space (last t)" "list_all is_dot t"
  shows "(drop n t \<noteq> [] \<longrightarrow> \<not> is_space (last (drop n t))) \<and> list_all is_dot (drop n t)"
  using assms by (auto simp: list_all_iff dest: in_set_dropD)

lemma headingMatch_trimmed:
  assumes "\<not> is_space (last t)" "list_all is_dot t"
  shows "headingMatch t = (if is_wrapped t then Some (heading_text t) else None)"
proof (cases "take 2 (strip_dash t) = ''**''")
  case False
  then show ?thesis by (simp add: headingMatch_strip is_wrapped_def)
next
  case True
  let ?sd = "strip_dash t"
  let ?r = "drop 2 ?sd"
  obtain g where g: "?sd = drop g t" using strip_dash_suffix by blast
  have r: "?r = drop (g + 2) t" by (simp add: g add.commute)
  from drop_keeps [OF assms, of "g + 2"]
  have ns: "?r \<noteq> [] \<Longrightarrow> \<not> is_space (last ?r)" and dots: "list_all is_dot ?r"
    unfolding r by simp_all
  from True have "length (take 2 ?sd) = 2" by simp
  then have len: "2 \<le> length ?sd" by simp
  then have lr: "length ?r = length ?sd - 2" by simp
  have "(3 \<le> length ?r \<and> drop (length ?r - 2) ?r = ''**'') = is_wrapped t"
  proof (cases "5 \<le> length ?sd")
    case False
    then show ?thesis using lr by (simp add: is_wrapped_def)
  next
    case five: True
    then have "length ?sd - 2 - 2 + 2 = length ?sd - 2" by arith
    then have "drop (length ?r - 2) ?r = drop (length ?sd - 2) ?sd"
      by (simp add: lr)
    moreover from five have "3 \<le> length ?sd - 2" by arith
    ultimately show ?thesis using five True lr by (simp add: is_wrapped_def)
  qed
  moreover have "take (length ?r - 2) ?r = heading_text t"
  proof -
    have "length ?sd - 2 - 2 = length ?sd - 4" by arith
    then show ?thesis by (simp add: heading_text_def lr)
  qed
  ultimately show ?thesis
    using True heading_capture_first [OF ns dots] by (simp add: headingMatch_strip del: upt_Suc)
qed

lemma star_is_dot: "is_dot CHR ''*''"
  by (simp add: is_dot_def)

lemma bullet_after_stars_body:
  assumes "dropWhile is_space (drop i t) \<noteq> []" "list_all is_dot (dropWhile is_space (drop i t))"
  shows "bullet_after_stars t i = Some (dropWhile is_space (drop i t))"
proof -
  let ?w = "length (takeWhile is_space (drop i t))"
  let ?F = "\<lambda>j. if drop j (drop i t) \<noteq> [] \<and> list_all is_dot (drop j (drop i t))
                then Some (drop j (drop i t)) else None"
  have l: "rev [0..<Suc ?w] = ?w # rev [0..<?w]" by simp
  have dw: "drop ?w (drop i t) = dropWhile is_space (drop i t)"
    by (simp only: dropWhile_eq_drop)
  have fw: "?F ?w = Some (dropWhile is_space (drop i t))"
    unfolding dw using assms by (simp only: simp_thms if_True)
  have "first_some ?F (?w # rev [0..<?w]) = Some (dropWhile is_space (drop i t))"
    by (simp only: first_some.simps fw option.case)
  then show ?thesis
    unfolding bullet_after_stars_def Let_def l .
qed

lemma bullet_after_stars_end: "length t \<le> i \<Longrightarrow> bullet_after_stars t i = None"
  by (simp add: bullet_after_stars_def)

lemma all_stars:
  assumes "dropWhile (\<lambda>c. c = CHR ''*'') t = []"
  shows "t = replicate (length t) CHR ''*''"
proof -
  from assms have "\<forall>x\<in>set t. x = CHR ''*''" by (simp add: dropWhile_eq_Nil_conv)
  then show ?thesis by (simp add: replicate_length_same)
qed

lemma bulletMatch_trimmed:
  assumes ne: "t \<noteq> []" and ns: "\<not> is_space (last t)" and dots: "list_all is_dot t"
  shows "bulletMatch t = (if begins_with_asterisk t \<and> t \<noteq> ''*'' then Some (bullet_text t) else None)"
proof (cases "begins_with_asterisk t")
  case False
  with ne have "takeWhile (\<lambda>c. c = CHR ''*'') t = []"
    by (cases t) (auto simp: begins_with_asterisk_def)
  with False show ?thesis by (simp add: bulletMatch_def)
next
  case True
  let ?s = "length (takeWhile (\<lambda>c. c = CHR ''*'') t)"
  let ?rest = "dropWhile (\<lambda>c. c = CHR ''*'') t"
  let ?body = "dropWhile is_space ?rest"
  from True obtain u where t: "t = CHR ''*'' # u" by (cases t) (auto simp: begins_with_asterisk_def)
  then have s1: "1 \<le> ?s" by simp
  have rest: "?rest = drop ?s t" by (simp only: dropWhile_eq_drop)
  from s1 have cands: "rev [1..<Suc ?s] = ?s # rev [1..<?s]" by simp
  show ?thesis
  proof (cases "?body = []")
    case False
    have "list_all is_dot ?body"
      using dots by (auto simp: list_all_iff dest!: set_dropWhileD)
    with False have "bullet_after_stars t ?s = Some ?body"
      unfolding rest by (intro bullet_after_stars_body)
    then have "bulletMatch t = Some ?body"
      unfolding bulletMatch_def cands by simp
    moreover from False have "t \<noteq> ''*''" by auto
    moreover have "bullet_text t = ?body"
      unfolding bullet_text_def using False by (simp only: if_False)
    ultimately show ?thesis using True by (simp only: simp_thms if_True)
  next
    case body: True
    have r: "?rest = []"
    proof (rule ccontr)
      assume n: "?rest \<noteq> []"
      then have "last ?rest \<in> set ?rest" by (rule last_in_set)
      moreover from body have "\<forall>x\<in>set ?rest. is_space x" by (simp add: dropWhile_eq_Nil_conv)
      ultimately have "is_space (last ?rest)" by blast
      moreover have "last ?rest = last t"
      proof -
        from n have "?s < length t" unfolding rest by simp
        then show ?thesis unfolding rest by simp
      qed
      ultimately show False using ns by simp
    qed
    then have st: "t = replicate (length t) CHR ''*''" by (rule all_stars)
    from r have len: "?s = length t"
      by (metis append_Nil2 takeWhile_dropWhile_id)
    have top: "bullet_after_stars t ?s = None"
      by (rule bullet_after_stars_end) (simp add: len)
    show ?thesis
    proof (cases "length t = 1")
      case one: True
      with t have "t = ''*''" by simp
      moreover from one len have "rev [1..<Suc ?s] = [?s]" by simp
      ultimately show ?thesis using top True
        unfolding bulletMatch_def by (simp only: first_some_single) simp
    next
      case False
      with t obtain k where k: "length t = Suc (Suc k)" by (cases u) auto
      have "drop (Suc k) t = replicate (length t - Suc k) CHR ''*''"
        by (subst st) simp
      then have d: "drop (Suc k) t = ''*''" using k by simp
      have "bullet_after_stars t (Suc k) = Some (dropWhile is_space (drop (Suc k) t))"
        by (rule bullet_after_stars_body) (simp_all add: d star_not_space star_is_dot)
      then have nxt: "bullet_after_stars t (Suc k) = Some ''*''"
        by (simp add: d star_not_space)
      have "rev [1..<Suc ?s] = Suc (Suc k) # Suc k # rev [1..<Suc k]"
        using len k by simp
      then have "bulletMatch t = Some ''*''"
        unfolding bulletMatch_def using top nxt len k by simp
      moreover from k have "t \<noteq> ''*''" by auto
      moreover have "bullet_text t = ''*''"
        unfolding bullet_text_def using body by (simp only: if_True simp_thms)
      ultimately show ?thesis using True by (simp only: simp_thms if_True)
    qed
  qed
qed

lemma lines_loop_concat: "lines_loop ls acc = acc @ concat (map line_blocks ls)"
  by (induction ls arbitrary: acc) simp_all

lemma line_blocks_shape:
  assumes "trim line \<noteq> []" "list_all is_dot (trim line)"
  shows "line_blocks line = [mk_block (line_type (trim line)) (line_text (trim line)) False]"
proof -
  have ns: "\<not> is_space (last (trim line))" using assms(1) by (rule trim_last)
  note h = headingMatch_trimmed [OF ns assms(2)]
  note b = bulletMatch_trimmed [OF assms(1) ns assms(2)]
  show ?thesis
    using assms(1) by (simp add: line_blocks_def Let_def h b line_type_def line_text_def)
qed

lemma line_blocks_one:
  assumes "trim line \<noteq> []"
  shows "\<exists>ty s. line_blocks line = [mk_block ty s False] \<and> ty \<noteq> Divider"
  using assms by (auto simp: line_blocks_def Let_def split: option.splits)

lemma richText_short:
  "s \<noteq> [] \<Longrightarrow> length s \<le> RICH_TEXT_LIMIT \<Longrightarrow> richText s b = [\<lparr>content = s, annotations = Some b\<rparr>]"
  by (subst richText.simps, subst richText.simps) simp

lemma example_lines:
  "split_lines summary_example = [''**Problem**'', ''* bullet one'', ''plain text'']"
  by (simp add: summary_example_def)

lemma example_trims:
  "trim ''**Problem**'' = ''**Problem**''" "trim ''* bullet one'' = ''* bullet one''"
  "trim ''plain text'' = ''plain text''" "trim ''*'' = ''*''"
  by (simp_all add: trim_def is_space_def)

lemma example_shapes:
  "line_type ''**Problem**'' = Heading2" "line_text ''**Problem**'' = ''Problem''"
  "line_type ''* bullet one'' = BulletedListItem" "line_text ''* bullet one'' = ''bullet one''"
  "line_type ''plain text'' = Paragraph" "line_text ''plain text'' = ''plain text''"
  "line_type ''*'' = Paragraph" "line_text ''*'' = ''*''"
  by (simp_all add: line_type_def line_text_def is_wrapped_def strip_dash_def heading_text_def
      begins_with_asterisk_def bullet_text_def is_space_def)

section \<open>Stem derivation\<close>

text \<open>
  Claim C8.  The stem is the repository name with every slash replaced by an underscore,
  then \<open>_PR\<close>, the number in decimal, an underscore and the first ten characters of
  the merge timestamp.  A full name \<open>owner/repo\<close> fills the first slot with
  \<open>owner_repo\<close>; when no repository name is available the slot holds \<open>unknown\<close>;
  when the merge timestamp is missing the stem ends in \<open>_unknown\<close>.  The pull request
  \<open>acme/widgets\<close> number 42 merged at \<open>2024-03-05T10:00:00Z\<close> has the stem
  \<open>acme_widgets_PR42_2024-03-05\<close>.
\<close>

theorem prToStem_format:
  "prToStem pr =
     replace_slashes (repo_name_or pr ''unknown'') @ ''_PR'' @ show_nat (number pr) @ ''_'' @
     (if truthy (merged_at pr) then take 10 (the (merged_at pr)) else ''unknown'')
   \<and> (repoFullName pr = Some (owner @ ''/'' @ rname) \<and> CHR ''/'' \<notin> set owner \<and>
        CHR ''/'' \<notin> set rname \<longrightarrow>
        replace_slashes (repo_name_or pr ''unknown'') = owner @ ''_'' @ rname)
   \<and> (\<not> truthy (repoFullName pr) \<and> \<not> truthy (base_full_name pr) \<longrightarrow>
        replace_slashes (repo_name_or pr ''unknown'') = ''unknown'')
   \<and> (\<not> truthy (merged_at pr) \<longrightarrow>
        prToStem pr =
          replace_slashes (repo_name_or pr ''unknown'') @ ''_PR'' @ show_nat (number pr) @ ''_unknown'')
   \<and> (repoFullName pr = Some ''acme/widgets'' \<and> number pr = 42 \<and>
        merged_at pr = Some ''2024-03-05T10:00:00Z'' \<longrightarrow>
        prToStem pr = ''acme_widgets_PR42_2024-03-05'')"
proof (intro conjI impI)
  show "prToStem pr =
     replace_slashes (repo_name_or pr ''unknown'') @ ''_PR'' @ show_nat (number pr) @ ''_'' @
     (if truthy (merged_at pr) then take 10 (the (merged_at pr)) else ''unknown'')"
    by (simp add: prToStem_def)
next
  assume a: "repoFullName pr = Some (owner @ ''/'' @ rname) \<and> CHR ''/'' \<notin> set owner \<and>
        CHR ''/'' \<notin> set rname"
  then have "repo_name_or pr ''unknown'' = owner @ ''/'' @ rname"
    by (simp add: repo_name_or_def truthy_def)
  with a show "replace_slashes (repo_name_or pr ''unknown'') = owner @ ''_'' @ rname"
    by (simp add: replace_slashes_append replace_slashes_Cons replace_slashes_id)
next
  assume "\<not> truthy (repoFullName pr) \<and> \<not> truthy (base_full_name pr)"
  then show "replace_slashes (repo_name_or pr ''unknown'') = ''unknown''"
    by (simp add: repo_name_or_def replace_slashes_def)
next
  assume "\<not> truthy (merged_at pr)"
  then show "prToStem pr =
          replace_slashes (repo_name_or pr ''unknown'') @ ''_PR'' @ show_nat (number pr) @ ''_unknown''"
    by (simp add: prToStem_def)
next
  assume "repoFullName pr = Some ''acme/widgets'' \<and> number pr = 42 \<and>
        merged_at pr = Some ''2024-03-05T10:00:00Z''"
  then show "prToStem pr = ''acme_widgets_PR42_2024-03-05''"
    by (simp add: prToStem_def repo_name_or_def truthy_def replace_slashes_def show_nat_42)
qed

theorem prToStem_format_witness:
  "prToStem pr_acme = ''acme_widgets_PR42_2024-03-05'' \<and>
   prToStem (pr_acme\<lparr>merged_at := None\<rparr>) = ''acme_widgets_PR42_unknown'' \<and>
   prToStem (pr_acme\<lparr>repoFullName := None\<rparr>) = ''unknown_PR42_2024-03-05''"
  using prToStem_format [of pr_acme "''acme''" "''widgets''"]
    prToStem_format [of "pr_acme\<lparr>merged_at := None\<rparr>" "''acme''" "''widgets''"]
    prToStem_format [of "pr_acme\<lparr>repoFullName := None\<rparr>" "''acme''" "''widgets''"]
  by (simp add: pr_acme_def truthy_def base_full_name_def show_nat_42)

section \<open>Payload assembly: the hunk table\<close>

text \<open>
  Claim C1.  The payload's hunk table lists the distinct non-empty diff contexts of the
  review comments in first-seen order, the \<open>k\<close>-th of them under \<open>hunk_k\<close>, and every
  comment with a non-empty context carries the identifier of its context, a repeated
  context the one assigned at its first occurrence.  Hence comments that all share one
  non-empty context give a table of exactly one entry and all carry \<open>hunk_1\<close>; and
  contexts A, B, A, C (distinct and non-empty) give A under \<open>hunk_1\<close>, B under
  \<open>hunk_2\<close> and C under \<open>hunk_3\<close>.
\<close>

theorem hunk_ids_first_seen:
  "diffHunks (prToLLMPackage pr) =
     (if first_seen (contexts (reviewComments pr)) = [] then None
      else Some (zip (hunk_ids (length (first_seen (contexts (reviewComments pr)))))
                  (first_seen (contexts (reviewComments pr)))))
   \<and> map hunkRef (comments (prToLLMPackage pr)) =
       map (\<lambda>c. if truthy (diff_hunk c)
               then map_of (zip (first_seen (contexts (reviewComments pr)))
                      (hunk_ids (length (first_seen (contexts (reviewComments pr))))))
                    (the (diff_hunk c))
               else None) (reviewComments pr)
   \<and> distinct (first_seen (contexts (reviewComments pr)))
   \<and> set (first_seen (contexts (reviewComments pr))) = set (contexts (reviewComments pr))
   \<and> (reviewComments pr \<noteq> [] \<and> h \<noteq> [] \<and> (\<forall>c\<in>set (reviewComments pr). diff_hunk c = Some h) \<longrightarrow>
        diffHunks (prToLLMPackage pr) = Some [(''hunk_1'', h)] \<and>
        length (comments (prToLLMPackage pr)) = length (reviewComments pr) \<and>
        (\<forall>oc\<in>set (comments (prToLLMPackage pr)). hunkRef oc = Some ''hunk_1''))
   \<and> (map diff_hunk (reviewComments pr) = [Some a, Some b, Some a, Some c] \<and>
        distinct [a, b, c] \<and> a \<noteq> [] \<and> b \<noteq> [] \<and> c \<noteq> [] \<longrightarrow>
        diffHunks (prToLLMPackage pr) = Some [(''hunk_1'', a), (''hunk_2'', b), (''hunk_3'', c)] \<and>
        map hunkRef (comments (prToLLMPackage pr)) =
          [Some ''hunk_1'', Some ''hunk_2'', Some ''hunk_1'', Some ''hunk_3''])"
proof (intro conjI impI)
  show "distinct (first_seen (contexts (reviewComments pr)))"
    by (simp add: first_seen_def first_seen_from_distinct)
  show "set (first_seen (contexts (reviewComments pr))) = set (contexts (reviewComments pr))"
    by (simp add: first_seen_def first_seen_from_set)
next
  assume sh: "reviewComments pr \<noteq> [] \<and> h \<noteq> [] \<and> (\<forall>c\<in>set (reviewComments pr). diff_hunk c = Some h)"
  then have fs: "first_seen (contexts (reviewComments pr)) = [h]"
    by (intro shared_context) auto
  show "diffHunks (prToLLMPackage pr) = Some [(''hunk_1'', h)]"
    by (simp add: pkg_diffHunks fs hunk_ids_3)
  show "length (comments (prToLLMPackage pr)) = length (reviewComments pr)"
    by (simp add: prToLLMPackage_def Let_def)
  have "map hunkRef (comments (prToLLMPackage pr)) = map (\<lambda>c. Some ''hunk_1'') (reviewComments pr)"
    unfolding pkg_hunkRefs fs using sh by (simp add: hunk_ids_3 truthy_def)
  then have "set (map hunkRef (comments (prToLLMPackage pr))) \<subseteq> {Some ''hunk_1''}"
    by auto
  then show "\<forall>oc\<in>set (comments (prToLLMPackage pr)). hunkRef oc = Some ''hunk_1''"
    by auto
next
  assume ab: "map diff_hunk (reviewComments pr) = [Some a, Some b, Some a, Some c] \<and>
        distinct [a, b, c] \<and> a \<noteq> [] \<and> b \<noteq> [] \<and> c \<noteq> []"
  then obtain c1 c2 c3 c4 where cs: "reviewComments pr = [c1, c2, c3, c4]"
    and d: "diff_hunk c1 = Some a" "diff_hunk c2 = Some b" "diff_hunk c3 = Some a" "diff_hunk c4 = Some c"
    by (auto simp: map_eq_Cons_conv)
  have ctx: "contexts (reviewComments pr) = [a, b, a, c]"
    using ab by (simp add: cs d contexts_def truthy_def)
  have fs: "first_seen (contexts (reviewComments pr)) = [a, b, c]"
    using ab by (auto simp: ctx first_seen_def)
  show "diffHunks (prToLLMPackage pr) = Some [(''hunk_1'', a), (''hunk_2'', b), (''hunk_3'', c)]"
    by (simp add: pkg_diffHunks fs hunk_ids_3)
  show "map hunkRef (comments (prToLLMPackage pr)) =
          [Some ''hunk_1'', Some ''hunk_2'', Some ''hunk_1'', Some ''hunk_3'']"
    unfolding pkg_hunkRefs fs using ab by (auto simp: cs d hunk_ids_3 truthy_def)
qed (rule pkg_diffHunks pkg_hunkRefs)+

theorem hunk_ids_first_seen_witness:
  "(diffHunks (prToLLMPackage (pr_with_comments [comment_on hunk_A, comment_on hunk_B, comment_on hunk_A, comment_on hunk_C]))
      = Some [(''hunk_1'', hunk_A), (''hunk_2'', hunk_B), (''hunk_3'', hunk_C)]
    \<and> map hunkRef (comments (prToLLMPackage (pr_with_comments [comment_on hunk_A, comment_on hunk_B, comment_on hunk_A, comment_on hunk_C])))
      = [Some ''hunk_1'', Some ''hunk_2'', Some ''hunk_1'', Some ''hunk_3''])
   \<and> (diffHunks (prToLLMPackage (pr_with_comments [comment_on hunk_A, comment_on hunk_A, comment_on hunk_A]))
      = Some [(''hunk_1'', hunk_A)]
    \<and> length (comments (prToLLMPackage (pr_with_comments [comment_on hunk_A, comment_on hunk_A, comment_on hunk_A])))
      = length (reviewComments (pr_with_comments [comment_on hunk_A, comment_on hunk_A, comment_on hunk_A]))
    \<and> list_all (\<lambda>oc. hunkRef oc = Some ''hunk_1'')
         (comments (prToLLMPackage (pr_with_comments [comment_on hunk_A, comment_on hunk_A, comment_on hunk_A]))))"
proof (rule conjI)
  show "diffHunks (prToLLMPackage (pr_with_comments [comment_on hunk_A, comment_on hunk_B, comment_on hunk_A, comment_on hunk_C]))
      = Some [(''hunk_1'', hunk_A), (''hunk_2'', hunk_B), (''hunk_3'', hunk_C)]
    \<and> map hunkRef (comments (prToLLMPackage (pr_with_comments [comment_on hunk_A, comment_on hunk_B, comment_on hunk_A, comment_on hunk_C])))
      = [Some ''hunk_1'', Some ''hunk_2'', Some ''hunk_1'', Some ''hunk_3'']"
    by (rule hunk_ids_first_seen [THEN conjunct2, THEN conjunct2, THEN conjunct2, THEN conjunct2,
          THEN conjunct2, THEN mp])
       (simp add: pr_with_comments_def comment_on_def hunk_A_def hunk_B_def hunk_C_def)
next
  show "diffHunks (prToLLMPackage (pr_with_comments [comment_on hunk_A, comment_on hunk_A, comment_on hunk_A]))
      = Some [(''hunk_1'', hunk_A)]
    \<and> length (comments (prToLLMPackage (pr_with_comments [comment_on hunk_A, comment_on hunk_A, comment_on hunk_A])))
      = length (reviewComments (pr_with_comments [comment_on hunk_A, comment_on hunk_A, comment_on hunk_A]))
    \<and> list_all (\<lambda>oc. hunkRef oc = Some ''hunk_1'')
         (comments (prToLLMPackage (pr_with_comments [comment_on hunk_A, comment_on hunk_A, comment_on hunk_A])))"
    unfolding list_all_iff
    by (rule hunk_ids_first_seen [THEN conjunct2, THEN conjunct2, THEN conjunct2, THEN conjunct2,
          THEN conjunct1, THEN mp])
       (simp add: pr_with_comments_def comment_on_def hunk_A_def)
qed

section \<open>Collection keeps merged pull requests only\<close>

text \<open>
  Claim C4.  Every record \<open>fetchMergedPRsForUser\<close> returns carries a merge timestamp.
  When the search answers with one short page whose hits all resolve, the result is the
  list of the resolved records that carry a merge timestamp, in page order: a hit whose
  full record lacks one is dropped.  So a page of two hits, one resolving to a merged
  record and one to a record without merge timestamp, in either order, yields exactly
  one record, the merged one.
\<close>

theorem fetch_only_merged:
  "(fetchMergedPRsForUser oc = Some (Returns prs) \<longrightarrow>
      (\<forall>pr\<in>set prs. truthy (merged_at pr) \<and> merged_at pr \<noteq> None))
   \<and> (users_getAuthenticated oc = Returns login \<and>
       search_issuesAndPullRequests oc (search_query login) 1 = Returns items \<and>
       length items < perPage \<and>
       (\<forall>item\<in>set items. \<exists>full. resolve_hit oc item = Returns full \<and>
           (truthy (merged_at full) \<longrightarrow> has_base_repo full)) \<longrightarrow>
       fetchMergedPRsForUser oc = Some (Returns (merged_records oc items)))
   \<and> (users_getAuthenticated oc = Returns login \<and>
       (search_issuesAndPullRequests oc (search_query login) 1 = Returns [hit1, hit2] \<or>
        search_issuesAndPullRequests oc (search_query login) 1 = Returns [hit2, hit1]) \<and>
       resolve_hit oc hit1 = Returns m \<and> truthy (merged_at m) \<and> has_base_repo m \<and>
       resolve_hit oc hit2 = Returns u \<and> \<not> truthy (merged_at u) \<longrightarrow>
       fetchMergedPRsForUser oc = Some (Returns [m\<lparr>repoFullName := base_full_name m\<rparr>]))"
proof (intro conjI impI)
  assume f: "fetchMergedPRsForUser oc = Some (Returns prs)"
  then obtain login where "search_pages oc login 1 [] = Some (Returns prs)"
    by (auto simp: fetchMergedPRsForUser_def split: outcome.splits)
  from search_pages_merged [OF this] have "\<forall>pr\<in>set prs. truthy (merged_at pr)" by simp
  then show "\<forall>pr\<in>set prs. truthy (merged_at pr) \<and> merged_at pr \<noteq> None"
    by (auto simp: truthy_def split: option.splits)
next
  assume "users_getAuthenticated oc = Returns login \<and>
       search_issuesAndPullRequests oc (search_query login) 1 = Returns items \<and>
       length items < perPage \<and>
       (\<forall>item\<in>set items. \<exists>full. resolve_hit oc item = Returns full \<and>
           (truthy (merged_at full) \<longrightarrow> has_base_repo full))"
  then show "fetchMergedPRsForUser oc = Some (Returns (merged_records oc items))"
    by (intro fetch_single_page) auto
next
  assume a: "users_getAuthenticated oc = Returns login \<and>
       (search_issuesAndPullRequests oc (search_query login) 1 = Returns [hit1, hit2] \<or>
        search_issuesAndPullRequests oc (search_query login) 1 = Returns [hit2, hit1]) \<and>
       resolve_hit oc hit1 = Returns m \<and> truthy (merged_at m) \<and> has_base_repo m \<and>
       resolve_hit oc hit2 = Returns u \<and> \<not> truthy (merged_at u)"
  then consider
      (mu) "search_issuesAndPullRequests oc (search_query login) 1 = Returns [hit1, hit2]"
    | (um) "search_issuesAndPullRequests oc (search_query login) 1 = Returns [hit2, hit1]"
    by blast
  then show "fetchMergedPRsForUser oc = Some (Returns [m\<lparr>repoFullName := base_full_name m\<rparr>])"
  proof cases
    case mu
    have "fetchMergedPRsForUser oc = Some (Returns (merged_records oc [hit1, hit2]))"
      using a mu by (intro fetch_single_page [of oc login]) (auto simp: perPage_def)
    with a show ?thesis by (simp add: merged_records_def)
  next
    case um
    have "fetchMergedPRsForUser oc = Some (Returns (merged_records oc [hit2, hit1]))"
      using a um by (intro fetch_single_page [of oc login]) (auto simp: perPage_def)
    with a show ?thesis by (simp add: merged_records_def)
  qed
qed

theorem fetch_only_merged_witness:
  "fetchMergedPRsForUser host_example
     = Some (Returns [full_merged\<lparr>repoFullName := Some ''acme/widgets''\<rparr>])
   \<and> fetchMergedPRsForUser host_example
     = Some (Returns (merged_records host_example [hit_merged, hit_stale]))
   \<and> list_all (\<lambda>pr. truthy (merged_at pr) \<and> merged_at pr \<noteq> None)
        [full_merged\<lparr>repoFullName := Some ''acme/widgets''\<rparr>]"
proof -
  have h: "users_getAuthenticated host_example = Returns ''mona'' \<and>
       (search_issuesAndPullRequests host_example (search_query ''mona'') 1 = Returns [hit_merged, hit_stale] \<or>
        search_issuesAndPullRequests host_example (search_query ''mona'') 1 = Returns [hit_stale, hit_merged]) \<and>
       resolve_hit host_example hit_merged = Returns full_merged \<and> truthy (merged_at full_merged) \<and>
       has_base_repo full_merged \<and>
       resolve_hit host_example hit_stale = Returns full_stale \<and> \<not> truthy (merged_at full_stale)"
    by (simp add: resolve_hit_examples) (simp add: host_example_def full_merged_def full_stale_def
        truthy_def has_base_repo_def)
  have p: "users_getAuthenticated host_example = Returns ''mona'' \<and>
       search_issuesAndPullRequests host_example (search_query ''mona'') 1 = Returns [hit_merged, hit_stale] \<and>
       length [hit_merged, hit_stale] < perPage \<and>
       (\<forall>item\<in>set [hit_merged, hit_stale]. \<exists>full. resolve_hit host_example item = Returns full \<and>
           (truthy (merged_at full) \<longrightarrow> has_base_repo full))"
    by (simp add: resolve_hit_examples perPage_def) (simp add: host_example_def full_merged_def full_stale_def
        truthy_def has_base_repo_def)
  have b: "base_full_name full_merged = Some ''acme/widgets''"
    by (simp add: base_full_name_def full_merged_def)
  have r: "fetchMergedPRsForUser host_example
     = Some (Returns [full_merged\<lparr>repoFullName := Some ''acme/widgets''\<rparr>])"
    using fetch_only_merged [THEN conjunct2, THEN conjunct2, THEN mp, OF h] by (simp add: b)
  note q = fetch_only_merged [THEN conjunct2, THEN conjunct1, THEN mp, OF p]
  from fetch_only_merged [THEN conjunct1, THEN mp, OF r] show ?thesis
    using r q by (simp add: list_all_iff)
qed

section \<open>Enrichment: a failing facet stays local\<close>

text \<open>
  Claim C2, as stated, fails for the diff facet: when the diff request throws, the
  enriched pull request holds \<open>null\<close> for the diff, not the empty text.
\<close>

theorem enrich_diff_null_counterexample:
  "pulls_get_diff host_diff_fails (pr_owner pr_merged) (pr_repo pr_merged) (number pr_merged)
     = Throws ''Server Error''
   \<and> diff (enrichPR host_diff_fails pr_merged) = None
   \<and> diff (enrichPR host_diff_fails pr_merged) \<noteq> Some []"
  by (simp add: enrichPR_facets getPRDiff_def host_diff_fails_def host_example_def)

text \<open>
  Claim C2, amended.  The three facets of an enriched pull request are the results of three
  separate guarded requests, and the pull request's own properties are kept.  A request
  that throws gives its own facet the neutral value, which is \<open>null\<close> for the diff and
  the empty list for the files and for the review comments; a request that answers gives
  its facet the answer.  In particular, when the review-comments request throws while the
  diff and file-list requests answer, enrichment returns the diff text and the file list,
  and an empty list of comments, which is what the payload assembler gets.
\<close>

theorem enrich_facets_isolated:
  "diff (enrichPR oc pr) = getPRDiff oc (pr_owner pr) (pr_repo pr) (number pr)
   \<and> listFiles (enrichPR oc pr) = getPRListFiles oc (pr_owner pr) (pr_repo pr) (number pr)
   \<and> reviewComments (enrichPR oc pr) = getReviewComments oc (pr_owner pr) (pr_repo pr) (number pr)
   \<and> pull_request.truncate (enrichPR oc pr) = pr
   \<and> (pulls_get_diff oc owner rname n = Throws e \<longrightarrow> getPRDiff oc owner rname n = None)
   \<and> (pulls_listFiles oc owner rname n = Throws e \<longrightarrow> getPRListFiles oc owner rname n = [])
   \<and> (pulls_listReviewComments oc owner rname n = Throws e \<longrightarrow> getReviewComments oc owner rname n = [])
   \<and> (pulls_get_diff oc owner rname n = Returns (DiffText d) \<longrightarrow> getPRDiff oc owner rname n = Some d)
   \<and> (pulls_listFiles oc owner rname n = Returns (Some fs) \<longrightarrow> getPRListFiles oc owner rname n = fs)
   \<and> (pulls_listReviewComments oc owner rname n = Returns (Some cs) \<longrightarrow>
        getReviewComments oc owner rname n = cs)
   \<and> (pulls_listReviewComments oc (pr_owner pr) (pr_repo pr) (number pr) = Throws e \<and>
       pulls_get_diff oc (pr_owner pr) (pr_repo pr) (number pr) = Returns (DiffText d) \<and>
       pulls_listFiles oc (pr_owner pr) (pr_repo pr) (number pr) = Returns (Some fs) \<longrightarrow>
         diff (enrichPR oc pr) = Some d \<and> listFiles (enrichPR oc pr) = fs \<and>
         reviewComments (enrichPR oc pr) = [] \<and>
         comments (prToLLMPackage (enrichPR oc pr)) = [] \<and>
         filesAndPatches (prToLLMPackage (enrichPR oc pr)) = map out_of_file fs)"
  by (simp add: enrichPR_facets enrichPR_keeps getPRDiff_def getPRListFiles_def
      getReviewComments_def prToLLMPackage_def Let_def)

theorem enrich_facets_isolated_witness:
  "(diff (enrichPR host_example pr_merged) = Some ''diff --git a/w.js b/w.js''
    \<and> listFiles (enrichPR host_example pr_merged)
        = [\<lparr>filename = ''w.js'', status = ''modified'', additions = 3, deletions = 1,
            patch = Some ''@@ -1 +1 @@''\<rparr>]
    \<and> reviewComments (enrichPR host_example pr_merged) = []
    \<and> comments (prToLLMPackage (enrichPR host_example pr_merged)) = [])
   \<and> getPRDiff host_diff_fails ''acme'' (Some ''widgets'') 42 = None
   \<and> getPRListFiles host_files_fail ''acme'' (Some ''widgets'') 42 = []
   \<and> getReviewComments host_example ''acme'' (Some ''widgets'') 42 = []
   \<and> getPRDiff host_example ''acme'' (Some ''widgets'') 42 = Some ''diff --git a/w.js b/w.js''
   \<and> getPRListFiles host_example ''acme'' (Some ''widgets'') 42
        = [\<lparr>filename = ''w.js'', status = ''modified'', additions = 3, deletions = 1,
            patch = Some ''@@ -1 +1 @@''\<rparr>]
   \<and> getReviewComments host_comments_ok ''acme'' (Some ''widgets'') 42 = [comment_on hunk_A]"
proof -
  have g5: "pulls_get_diff host_diff_fails ''acme'' (Some ''widgets'') 42 = Throws ''Server Error''"
    by (simp add: host_diff_fails_def)
  have g6: "pulls_listFiles host_files_fail ''acme'' (Some ''widgets'') 42 = Throws ''Server Error''"
    by (simp add: host_files_fail_def)
  have g7: "pulls_listReviewComments host_example ''acme'' (Some ''widgets'') 42 = Throws ''Server Error''"
    by (simp add: host_example_def)
  have g8: "pulls_get_diff host_example ''acme'' (Some ''widgets'') 42
              = Returns (DiffText ''diff --git a/w.js b/w.js'')"
    by (simp add: host_example_def)
  have g9: "pulls_listFiles host_example ''acme'' (Some ''widgets'') 42
              = Returns (Some [\<lparr>filename = ''w.js'', status = ''modified'', additions = 3, deletions = 1,
                  patch = Some ''@@ -1 +1 @@''\<rparr>])"
    by (simp add: host_example_def)
  have g10: "pulls_listReviewComments host_comments_ok ''acme'' (Some ''widgets'') 42
              = Returns (Some [comment_on hunk_A])"
    by (simp add: host_comments_ok_def)
  have h: "pulls_listReviewComments host_example (pr_owner pr_merged) (pr_repo pr_merged) (number pr_merged)
             = Throws ''Server Error'' \<and>
       pulls_get_diff host_example (pr_owner pr_merged) (pr_repo pr_merged) (number pr_merged)
             = Returns (DiffText ''diff --git a/w.js b/w.js'') \<and>
       pulls_listFiles host_example (pr_owner pr_merged) (pr_repo pr_merged) (number pr_merged)
             = Returns (Some [\<lparr>filename = ''w.js'', status = ''modified'', additions = 3, deletions = 1,
           patch = Some ''@@ -1 +1 @@''\<rparr>])"
    using g7 g8 g9 by (simp add: pr_merged_request)
  note t = enrich_facets_isolated [THEN conjunct2, THEN conjunct2, THEN conjunct2, THEN conjunct2]
  note t5 = t [THEN conjunct1, THEN mp, OF g5]
  note t6 = t [THEN conjunct2, THEN conjunct1, THEN mp, OF g6]
  note t7 = t [THEN conjunct2, THEN conjunct2, THEN conjunct1, THEN mp, OF g7]
  note t8 = t [THEN conjunct2, THEN conjunct2, THEN conjunct2, THEN conjunct1, THEN mp, OF g8]
  note t9 = t [THEN conjunct2, THEN conjunct2, THEN conjunct2, THEN conjunct2, THEN conjunct1,
      THEN mp, OF g9]
  note t10 = t [THEN conjunct2, THEN conjunct2, THEN conjunct2, THEN conjunct2, THEN conjunct2,
      THEN conjunct1, THEN mp, OF g10]
  note t11 = t [THEN conjunct2, THEN conjunct2, THEN conjunct2, THEN conjunct2, THEN conjunct2,
      THEN conjunct2, THEN mp, OF h]
  from t5 t6 t7 t8 t9 t10 t11 show ?thesis by simp
qed

section \<open>A failing pull request does not stop the run\<close>

text \<open>
  Claim C6.  When an iteration processes a pull request and one of its calls throws, the
  iteration prints the failure line with the stem and the message, leaves the in-memory
  cache and the cache file as they were (so the pull request is still not cached and will
  be processed again), and the loop goes on with the next index.  The cache a run ends
  with is the one the run over the pull requests without the failing ones ends with.
  Whatever fails inside the loop, a configured run whose collection returned itself
  returns, with the cache written to the file.
\<close>

theorem failure_is_local:
  "(i < length prs \<and> \<not> skipped cfg (cache st) (prs ! i) \<and> pr_failure w pageId (prs ! i) = Some e \<longrightarrow>
      console (sync_body w cfg pageId prs i st)
        = console st @ [LogEnriching (i + 1) (length prs) (repo_name_or (prs ! i) ''?'') (number (prs ! i)),
                        LogFailed (i + 1) (length prs) (prToStem (prs ! i)) e]
      \<and> cache (sync_body w cfg pageId prs i st) = cache st
      \<and> cache_file (sync_body w cfg pageId prs i st) = cache_file st
      \<and> \<not> skipped cfg (cache (sync_body w cfg pageId prs i st)) (prs ! i)
      \<and> sync_loop w cfg pageId prs (length prs) i st
          = sync_loop w cfg pageId prs (length prs) (Suc i) (sync_body w cfg pageId prs i st))
   \<and> cache (sync_loop w cfg pageId prs (length prs) 0 st)
       = cache (sync_loop w cfg pageId (filter (\<lambda>pr. pr_failure w pageId pr = None) prs)
                 (length (filter (\<lambda>pr. pr_failure w pageId pr = None) prs)) 0 st)
   \<and> (truthy (NOTION_API_KEY cfg) \<and> truthy (NOTION_PAGE_ID cfg) \<and>
       fetchMergedPRsForUser (github w) = Some (Returns fetched) \<longrightarrow>
       (\<exists>fin. runSync w cfg file = Some (Returns fin) \<and> cache_file fin = Some (cache fin)))"
proof (intro conjI impI)
  assume a: "i < length prs \<and> \<not> skipped cfg (cache st) (prs ! i) \<and> pr_failure w pageId (prs ! i) = Some e"
  then show "console (sync_body w cfg pageId prs i st)
        = console st @ [LogEnriching (i + 1) (length prs) (repo_name_or (prs ! i) ''?'') (number (prs ! i)),
                        LogFailed (i + 1) (length prs) (prToStem (prs ! i)) e]"
    by (simp add: sync_body_console)
  from a show c: "cache (sync_body w cfg pageId prs i st) = cache st"
    by (simp add: sync_body_cache cache_step_def)
  show "cache_file (sync_body w cfg pageId prs i st) = cache_file st"
    by (rule sync_body_cache_file)
  from a c show "\<not> skipped cfg (cache (sync_body w cfg pageId prs i st)) (prs ! i)"
    by simp
  from a show "sync_loop w cfg pageId prs (length prs) i st
          = sync_loop w cfg pageId prs (length prs) (Suc i) (sync_body w cfg pageId prs i st)"
    by (subst sync_loop.simps) simp
next
  show "cache (sync_loop w cfg pageId prs (length prs) 0 st)
       = cache (sync_loop w cfg pageId (filter (\<lambda>pr. pr_failure w pageId pr = None) prs)
                 (length (filter (\<lambda>pr. pr_failure w pageId pr = None) prs)) 0 st)"
    by (simp add: sync_loop_cache foldl_cache_step_filter)
next
  assume "truthy (NOTION_API_KEY cfg) \<and> truthy (NOTION_PAGE_ID cfg) \<and>
       fetchMergedPRsForUser (github w) = Some (Returns fetched)"
  then show "\<exists>fin. runSync w cfg file = Some (Returns fin) \<and> cache_file fin = Some (cache fin)"
    by (simp add: runSync_returns)
qed

theorem failure_is_local_witness:
  "(console (sync_body world_no_llm cfg_plain ''0a1b-2c3d'' [pr_merged] 0 (start_state cfg_plain None))
      = console (start_state cfg_plain None) @
          [LogEnriching (0 + 1) (length [pr_merged]) (repo_name_or ([pr_merged] ! 0) ''?'') (number ([pr_merged] ! 0)),
           LogFailed (0 + 1) (length [pr_merged]) (prToStem ([pr_merged] ! 0)) ''Add to .env: GEMINI_API_KEY'']
    \<and> cache (sync_body world_no_llm cfg_plain ''0a1b-2c3d'' [pr_merged] 0 (start_state cfg_plain None))
      = cache (start_state cfg_plain None))
   \<and> (\<exists>fin. runSync world_no_llm cfg_plain None = Some (Returns fin) \<and> cache_file fin = Some (cache fin))"
proof (rule conjI)
  have h: "0 < length [pr_merged] \<and>
      \<not> skipped cfg_plain (cache (start_state cfg_plain None)) ([pr_merged] ! 0) \<and>
      pr_failure world_no_llm ''0a1b-2c3d'' ([pr_merged] ! 0) = Some ''Add to .env: GEMINI_API_KEY''"
    by (simp add: skipped_def cache_hit_def start_state_def loadCache_def pr_failure_no_llm cfg_plain_def)
  from failure_is_local [THEN conjunct1, THEN mp, OF h]
  show "console (sync_body world_no_llm cfg_plain ''0a1b-2c3d'' [pr_merged] 0 (start_state cfg_plain None))
      = console (start_state cfg_plain None) @
          [LogEnriching (0 + 1) (length [pr_merged]) (repo_name_or ([pr_merged] ! 0) ''?'') (number ([pr_merged] ! 0)),
           LogFailed (0 + 1) (length [pr_merged]) (prToStem ([pr_merged] ! 0)) ''Add to .env: GEMINI_API_KEY'']
    \<and> cache (sync_body world_no_llm cfg_plain ''0a1b-2c3d'' [pr_merged] 0 (start_state cfg_plain None))
      = cache (start_state cfg_plain None)"
    by blast
next
  have h: "truthy (NOTION_API_KEY cfg_plain) \<and> truthy (NOTION_PAGE_ID cfg_plain) \<and>
       fetchMergedPRsForUser (github world_no_llm) = Some (Returns [pr_merged])"
    by (simp add: cfg_plain_def truthy_def world_no_llm_def world_ok_def fetch_host_example)
  from failure_is_local [THEN conjunct2, THEN conjunct2, THEN mp, OF h]
  show "\<exists>fin. runSync world_no_llm cfg_plain None = Some (Returns fin) \<and> cache_file fin = Some (cache fin)" .
qed

section \<open>When the cache reaches the file\<close>

text \<open>
  Claim C5, as stated, fails.  Take the run over two pull requests interrupted after the
  first iteration: the first pull request has been appended and the in-memory cache
  holds its stem, but the cache file is as it was at the start (here absent), so the
  cache a restart loads has no entry for the stem and the restarted run appends the
  pull request again.
\<close>

theorem crash_loses_cache_counterexample:
  "filter is_append (calls (sync_loop world_ok cfg_plain ''0a1b-2c3d'' [pr_merged, pr_second] 1 0
        (start_state cfg_plain None)))
     = [CallAppend ''0a1b2c3d'' (summary_blocks stem_merged ''**Problem**'')]
   \<and> prToStem pr_merged = stem_merged
   \<and> cache (sync_loop world_ok cfg_plain ''0a1b-2c3d'' [pr_merged, pr_second] 1 0
        (start_state cfg_plain None)) stem_merged = Some (Flag True)
   \<and> cache_file (sync_loop world_ok cfg_plain ''0a1b-2c3d'' [pr_merged, pr_second] 1 0
        (start_state cfg_plain None)) = None
   \<and> loadCache (cache_file (sync_loop world_ok cfg_plain ''0a1b-2c3d'' [pr_merged, pr_second] 1 0
        (start_state cfg_plain None))) stem_merged = None
   \<and> filter is_append (calls (sync_loop world_ok cfg_plain ''0a1b-2c3d'' [pr_merged, pr_second] 1 0
        (start_state cfg_plain
           (cache_file (sync_loop world_ok cfg_plain ''0a1b-2c3d'' [pr_merged, pr_second] 1 0
              (start_state cfg_plain None))))))
     = [CallAppend ''0a1b2c3d'' (summary_blocks stem_merged ''**Problem**'')]"
proof -
  have s: "cache (start_state cfg_plain None) = Map.empty" "calls (start_state cfg_plain None) = []"
    "cache_file (start_state cfg_plain None) = None"
    by (simp_all add: start_state_def loadCache_def)
  have e: "(cache (sync_loop world_ok cfg_plain ''0a1b-2c3d'' [pr_merged, pr_second] 1 0 (start_state cfg_plain None)),
            calls (sync_loop world_ok cfg_plain ''0a1b-2c3d'' [pr_merged, pr_second] 1 0 (start_state cfg_plain None)))
         = ([stem_merged \<mapsto> Flag True], pr_calls world_ok ''0a1b-2c3d'' pr_merged)"
    by (subst sync_loop_effect) (simp_all add: s effect_ok_first)
  have f: "cache_file (sync_loop world_ok cfg_plain ''0a1b-2c3d'' [pr_merged, pr_second] 1 0
        (start_state cfg_plain None)) = None"
    by (simp add: sync_loop_cache_file s)
  from e f show ?thesis
    by (simp add: appends_ok_first prToStem_pr_merged loadCache_def)
qed

text \<open>
  Claim C5, amended.  An iteration that appends a pull request records its stem in the
  in-memory cache at once, before the next iteration, and does not touch the cache file.
  So after any prefix of the loop the in-memory cache has a completion marker for every
  pull request of the prefix whose processing does not fail, while the cache file still
  holds what it held when the loop started: it is written only at the end of the run.
\<close>

theorem cache_recorded_in_memory:
  "(i < length prs \<and> \<not> skipped cfg (cache st) (prs ! i) \<and> pr_failure w pageId (prs ! i) = None \<longrightarrow>
      cache (sync_body w cfg pageId prs i st) = (cache st)(prToStem (prs ! i) \<mapsto> Flag True) \<and>
      cache_file (sync_body w cfg pageId prs i st) = cache_file st)
   \<and> (bound \<le> length prs \<longrightarrow>
        (\<forall>i<bound. pr_failure w pageId (prs ! i) = None \<longrightarrow>
           cache_hit (cache (sync_loop w cfg pageId prs bound 0 st)) (prToStem (prs ! i))) \<and>
        cache_file (sync_loop w cfg pageId prs bound 0 st) = cache_file st)"
proof (intro conjI impI allI)
  assume "i < length prs \<and> \<not> skipped cfg (cache st) (prs ! i) \<and> pr_failure w pageId (prs ! i) = None"
  then show "cache (sync_body w cfg pageId prs i st) = (cache st)(prToStem (prs ! i) \<mapsto> Flag True)"
    by (simp add: sync_body_cache cache_step_def)
next
  show "cache_file (sync_body w cfg pageId prs i st) = cache_file st"
    by (rule sync_body_cache_file)
next
  fix j
  assume b: "bound \<le> length prs" and j: "j < bound" and ok: "pr_failure w pageId (prs ! j) = None"
  from b j have "prs ! j \<in> set (take bound prs)"
    by (metis in_set_conv_nth length_take min.absorb2 nth_take)
  from cache_hit_processed [OF this ok]
  show "cache_hit (cache (sync_loop w cfg pageId prs bound 0 st)) (prToStem (prs ! j))"
    by (simp add: sync_loop_prefix_cache [OF b])
next
  show "cache_file (sync_loop w cfg pageId prs bound 0 st) = cache_file st"
    by (rule sync_loop_cache_file)
qed

theorem cache_recorded_in_memory_witness:
  "(cache (sync_body world_ok cfg_plain ''0a1b-2c3d'' [pr_merged, pr_second] 0 (start_state cfg_plain None))
      = (cache (start_state cfg_plain None))(prToStem ([pr_merged, pr_second] ! 0) \<mapsto> Flag True)
    \<and> cache_file (sync_body world_ok cfg_plain ''0a1b-2c3d'' [pr_merged, pr_second] 0 (start_state cfg_plain None))
      = cache_file (start_state cfg_plain None))
   \<and> cache_hit (cache (sync_loop world_ok cfg_plain ''0a1b-2c3d'' [pr_merged, pr_second] 1 0 (start_state cfg_plain None)))
        (prToStem ([pr_merged, pr_second] ! 0))
   \<and> cache_file (sync_loop world_ok cfg_plain ''0a1b-2c3d'' [pr_merged, pr_second] 1 0 (start_state cfg_plain None))
      = cache_file (start_state cfg_plain None)"
proof -
  have h: "0 < length [pr_merged, pr_second] \<and>
      \<not> skipped cfg_plain (cache (start_state cfg_plain None)) ([pr_merged, pr_second] ! 0) \<and>
      pr_failure world_ok ''0a1b-2c3d'' ([pr_merged, pr_second] ! 0) = None"
    by (simp add: skipped_def cache_hit_def start_state_def loadCache_def pr_failure_ok cfg_plain_def)
  have b: "1 \<le> length [pr_merged, pr_second]" by simp
  note t = cache_recorded_in_memory [of 0 "[pr_merged, pr_second]" cfg_plain "start_state cfg_plain None"
      world_ok "''0a1b-2c3d''" 1]
  from t [THEN conjunct1, THEN mp, OF h] t [THEN conjunct2, THEN mp, OF b] h
  show ?thesis by simp
qed

section \<open>Runs under \<open>--force\<close>\<close>

text \<open>
  Claim C7, as stated, fails where it says that every selected pull request is appended
  again: in a forced run whose summarizer has no credential the selected pull request
  is enriched and sent to the summarizer, the failure is caught, and no append call is
  made.  The file, which held the stem, is rewritten as the empty object.
\<close>

theorem force_not_appended_counterexample:
  "selected cfg_force [pr_merged] = [pr_merged]
   \<and> runSync world_no_llm cfg_force (Some [stem_merged \<mapsto> Flag True])
     = Some (Returns
         \<lparr>cache = Map.empty, cache_file = Some Map.empty,
          calls = [CallEnrich pr_merged, CallSummarize (prToLLMPackage (enrichPR host_example pr_merged))],
          console = [LogEnriching 1 1 ''acme/widgets'' 42,
                     LogFailed 1 1 stem_merged ''Add to .env: GEMINI_API_KEY'']\<rparr>)
   \<and> filter is_append
        [CallEnrich pr_merged, CallSummarize (prToLLMPackage (enrichPR host_example pr_merged))] = []"
proof -
  let ?file = "Some [stem_merged \<mapsto> Flag True]"
  let ?st = "sync_body world_no_llm cfg_force ''0a1b-2c3d'' [pr_merged] 0 (start_state cfg_force ?file)"
  have st: "?st\<lparr>cache_file := Some (cache ?st)\<rparr>
     = \<lparr>cache = Map.empty, cache_file = Some Map.empty,
          calls = [CallEnrich pr_merged, CallSummarize (prToLLMPackage (enrichPR host_example pr_merged))],
          console = [LogEnriching 1 1 ''acme/widgets'' 42,
                     LogFailed 1 1 stem_merged ''Add to .env: GEMINI_API_KEY'']\<rparr>"
    by (rule run_state.equality)
       (simp_all add: sync_body_cache sync_body_calls sync_body_console cache_step_def calls_step_def
         skipped_def cfg_keys pr_failure_no_llm start_state_def pr_calls_def pr_summary_no_llm
         worlds_github prToStem_pr_merged repo_name_pr_merged pr_merged_number)
  have "runSync world_no_llm cfg_force ?file = Some (Returns (?st\<lparr>cache_file := Some (cache ?st)\<rparr>))"
    by (subst runSync_selected [where fetched = "[pr_merged]"])
       (simp_all add: cfg_keys worlds_github fetch_host_example selected_plain sync_loop_single)
  with st show ?thesis by (simp add: selected_plain)
qed

text \<open>
  Claim C7, amended.  In a forced run the cache file is not read: the run does the same
  whatever the file holds.  No selected pull request is skipped: each is enriched and
  summarized again, and the append is called for it again unless its summarization
  throws.  At the end the file is rewritten with the in-memory cache, which holds exactly
  the stems of the selected pull requests whose processing did not fail in this run; no
  entry of the earlier file is carried over.
\<close>

theorem force_rewrites_cache:
  "force cfg \<and> truthy (NOTION_API_KEY cfg) \<and> truthy (NOTION_PAGE_ID cfg) \<and>
   fetchMergedPRsForUser (github w) = Some (Returns fetched) \<longrightarrow>
     (\<exists>fin. runSync w cfg file = Some (Returns fin)
        \<and> runSync w cfg None = Some (Returns fin)
        \<and> calls fin = concat (map (pr_calls w (the (NOTION_PAGE_ID cfg))) (selected cfg fetched))
        \<and> filter is_append (calls fin)
            = map (append_of w (the (NOTION_PAGE_ID cfg))) (filter (has_summary w) (selected cfg fetched))
        \<and> cache_file fin = Some (fresh_cache w (the (NOTION_PAGE_ID cfg)) (selected cfg fetched))
        \<and> (\<forall>s. fresh_cache w (the (NOTION_PAGE_ID cfg)) (selected cfg fetched) s
               = (if s \<in> prToStem ` {pr \<in> set (selected cfg fetched).
                                        pr_failure w (the (NOTION_PAGE_ID cfg)) pr = None}
                  then Some (Flag True) else None)))"
proof
  assume a: "force cfg \<and> truthy (NOTION_API_KEY cfg) \<and> truthy (NOTION_PAGE_ID cfg) \<and>
   fetchMergedPRsForUser (github w) = Some (Returns fetched)"
  let ?page = "the (NOTION_PAGE_ID cfg)"
  let ?prs = "selected cfg fetched"
  let ?st = "sync_loop w cfg ?page ?prs (length ?prs) 0 (start_state cfg file)"
  let ?fin = "?st\<lparr>cache_file := Some (cache ?st)\<rparr>"
  from a have r: "runSync w cfg file = Some (Returns ?fin)"
    by (simp add: runSync_selected)
  from a have n: "runSync w cfg None = runSync w cfg file"
    by (simp add: forced_run_ignores_file [of cfg w "file"])
  from a have c: "calls ?fin = concat (map (pr_calls w ?page) ?prs)"
    by (simp add: forced_loop_calls)
  from a have f: "cache_file ?fin = Some (fresh_cache w ?page ?prs)"
    by (simp add: forced_loop_cache)
  show "\<exists>fin. runSync w cfg file = Some (Returns fin)
        \<and> runSync w cfg None = Some (Returns fin)
        \<and> calls fin = concat (map (pr_calls w ?page) ?prs)
        \<and> filter is_append (calls fin) = map (append_of w ?page) (filter (has_summary w) ?prs)
        \<and> cache_file fin = Some (fresh_cache w ?page ?prs)
        \<and> (\<forall>s. fresh_cache w ?page ?prs s
               = (if s \<in> prToStem ` {pr \<in> set ?prs. pr_failure w ?page pr = None}
                  then Some (Flag True) else None))"
  proof (intro exI [of _ ?fin] conjI allI)
    show "runSync w cfg file = Some (Returns ?fin)" by (rule r)
    show "runSync w cfg None = Some (Returns ?fin)" using n r by simp
    show "calls ?fin = concat (map (pr_calls w ?page) ?prs)" by (rule c)
    show "filter is_append (calls ?fin) = map (append_of w ?page) (filter (has_summary w) ?prs)"
      unfolding c by (rule appends_of_all_calls)
    show "cache_file ?fin = Some (fresh_cache w ?page ?prs)" by (rule f)
    show "fresh_cache w ?page ?prs s
               = (if s \<in> prToStem ` {pr \<in> set ?prs. pr_failure w ?page pr = None}
                  then Some (Flag True) else None)" for s
      by (rule fresh_cache_apply)
  qed
qed

theorem force_rewrites_cache_witness:
  "\<exists>fin. runSync world_ok cfg_force (Some [''acme_tools_PR7_2023-01-01'' \<mapsto> Flag True, stem_merged \<mapsto> Flag True])
            = Some (Returns fin)
     \<and> filter is_append (calls fin) = [CallAppend ''0a1b2c3d'' (summary_blocks stem_merged ''**Problem**'')]
     \<and> cache_file fin = Some [stem_merged \<mapsto> Flag True]"
proof -
  have h: "force cfg_force \<and> truthy (NOTION_API_KEY cfg_force) \<and> truthy (NOTION_PAGE_ID cfg_force) \<and>
     fetchMergedPRsForUser (github world_ok) = Some (Returns [pr_merged])"
    by (simp add: cfg_keys worlds_github fetch_host_example)
  have s: "has_summary world_ok pr_merged" by (simp add: has_summary_def pr_summary_ok)
  have a: "append_of world_ok ''0a1b-2c3d'' pr_merged
             = CallAppend ''0a1b2c3d'' (summary_blocks stem_merged ''**Problem**'')"
    by (simp add: append_of_def pr_summary_ok prToStem_pr_merged clean_id_def)
  have c: "fresh_cache world_ok ''0a1b-2c3d'' [pr_merged] = [stem_merged \<mapsto> Flag True]"
    by (simp add: fresh_cache_def pr_failure_ok prToStem_pr_merged)
  from force_rewrites_cache [THEN mp, OF h,
      of "Some [''acme_tools_PR7_2023-01-01'' \<mapsto> Flag True, stem_merged \<mapsto> Flag True]"]
  show ?thesis
    by (auto simp: cfg_keys selected_plain s a c)
qed

section \<open>Running twice\<close>

text \<open>
  Claim C3, as stated, fails where it promises no append call on the second run.  In a
  world whose note store refuses the append, the first run calls the append for the
  selected pull request, catches the failure and records nothing; the second run, on the
  file the first one wrote, does exactly the same, append call included.
\<close>

theorem second_run_appends_counterexample:
  "runSync world_no_notion cfg_plain None
     = Some (Returns
         \<lparr>cache = Map.empty, cache_file = Some Map.empty,
          calls = [CallEnrich pr_merged,
                   CallSummarize (prToLLMPackage (enrichPR host_example pr_merged)),
                   CallAppend ''0a1b2c3d'' (summary_blocks stem_merged ''**Problem**'')],
          console = [LogEnriching 1 1 ''acme/widgets'' 42,
                     LogFailed 1 1 stem_merged ''Could not find block'']\<rparr>)
   \<and> runSync world_no_notion cfg_plain (Some Map.empty)
     = Some (Returns
         \<lparr>cache = Map.empty, cache_file = Some Map.empty,
          calls = [CallEnrich pr_merged,
                   CallSummarize (prToLLMPackage (enrichPR host_example pr_merged)),
                   CallAppend ''0a1b2c3d'' (summary_blocks stem_merged ''**Problem**'')],
          console = [LogEnriching 1 1 ''acme/widgets'' 42,
                     LogFailed 1 1 stem_merged ''Could not find block'']\<rparr>)
   \<and> filter is_append
        [CallEnrich pr_merged,
         CallSummarize (prToLLMPackage (enrichPR host_example pr_merged)),
         CallAppend ''0a1b2c3d'' (summary_blocks stem_merged ''**Problem**'')]
     = [CallAppend ''0a1b2c3d'' (summary_blocks stem_merged ''**Problem**'')]"
proof -
  have st: "(sync_body world_no_notion cfg_plain ''0a1b-2c3d'' [pr_merged] 0 (start_state cfg_plain f0))
              \<lparr>cache_file := Some (cache (sync_body world_no_notion cfg_plain ''0a1b-2c3d'' [pr_merged] 0
                                       (start_state cfg_plain f0)))\<rparr>
     = \<lparr>cache = Map.empty, cache_file = Some Map.empty,
          calls = [CallEnrich pr_merged,
                   CallSummarize (prToLLMPackage (enrichPR host_example pr_merged)),
                   CallAppend ''0a1b2c3d'' (summary_blocks stem_merged ''**Problem**'')],
          console = [LogEnriching 1 1 ''acme/widgets'' 42,
                     LogFailed 1 1 stem_merged ''Could not find block'']\<rparr>"
    if "loadCache f0 = Map.empty" for f0
    by (rule run_state.equality)
       (simp_all add: sync_body_cache sync_body_calls sync_body_console cache_step_def calls_step_def
         skipped_def cache_hit_def cfg_keys pr_failure_no_notion start_state_def pr_calls_def
         pr_summary_ok worlds_github prToStem_pr_merged repo_name_pr_merged pr_merged_number
         clean_id_def that)
  have run: "runSync world_no_notion cfg_plain f0
      = Some (Returns ((sync_body world_no_notion cfg_plain ''0a1b-2c3d'' [pr_merged] 0 (start_state cfg_plain f0))
              \<lparr>cache_file := Some (cache (sync_body world_no_notion cfg_plain ''0a1b-2c3d'' [pr_merged] 0
                                       (start_state cfg_plain f0)))\<rparr>))" for f0
    by (subst runSync_selected [where fetched = "[pr_merged]"])
       (simp_all add: cfg_keys worlds_github fetch_host_example selected_plain sync_loop_single)
  show ?thesis
    by (simp add: run st loadCache_def)
qed

text \<open>
  Claim C3, amended.  Without \<open>--force\<close>, an iteration whose stem has a truthy marker
  in the cache makes no remote call and changes neither the cache nor the file.  When a
  run is followed by a second run in the same world on the file the first one wrote, the
  second run writes the same file again; every selected pull request whose processing
  does not fail is recorded by the first run, and the second run makes remote calls for
  exactly the selected pull requests the first run left unrecorded (those whose
  processing failed, which are tried again).  So when no selected pull request fails,
  the second run makes no remote call at all, in particular no append call.
\<close>

theorem second_run_skips_done:
  "(cache_hit (cache st) (prToStem (prs ! i)) \<and> \<not> force cfg \<longrightarrow>
      calls (sync_body w cfg pageId prs i st) = calls st \<and>
      cache (sync_body w cfg pageId prs i st) = cache st \<and>
      cache_file (sync_body w cfg pageId prs i st) = cache_file st)
   \<and> (\<not> force cfg \<and> truthy (NOTION_API_KEY cfg) \<and> truthy (NOTION_PAGE_ID cfg) \<and>
       fetchMergedPRsForUser (github w) = Some (Returns fetched) \<longrightarrow>
       (\<exists>fin1 fin2.
          runSync w cfg file = Some (Returns fin1) \<and>
          runSync w cfg (cache_file fin1) = Some (Returns fin2) \<and>
          cache_file fin2 = cache_file fin1 \<and>
          (\<forall>pr\<in>set (selected cfg fetched).
             pr_failure w (the (NOTION_PAGE_ID cfg)) pr = None \<longrightarrow> cache_hit (cache fin1) (prToStem pr)) \<and>
          calls fin2 = concat (map (pr_calls w (the (NOTION_PAGE_ID cfg)))
                         (filter (\<lambda>pr. \<not> cache_hit (cache fin1) (prToStem pr)) (selected cfg fetched))) \<and>
          ((\<forall>pr\<in>set (selected cfg fetched). pr_failure w (the (NOTION_PAGE_ID cfg)) pr = None) \<longrightarrow>
             calls fin2 = [])))"
proof (intro conjI impI)
  assume a: "cache_hit (cache st) (prToStem (prs ! i)) \<and> \<not> force cfg"
  then show "calls (sync_body w cfg pageId prs i st) = calls st"
    by (simp add: sync_body_calls calls_step_def skipped_def)
  from a show "cache (sync_body w cfg pageId prs i st) = cache st"
    by (simp add: sync_body_cache cache_step_def skipped_def)
  show "cache_file (sync_body w cfg pageId prs i st) = cache_file st"
    by (rule sync_body_cache_file)
next
  assume a: "\<not> force cfg \<and> truthy (NOTION_API_KEY cfg) \<and> truthy (NOTION_PAGE_ID cfg) \<and>
       fetchMergedPRsForUser (github w) = Some (Returns fetched)"
  let ?page = "the (NOTION_PAGE_ID cfg)"
  let ?prs = "selected cfg fetched"
  let ?c1 = "foldl (cache_step w cfg ?page) (loadCache file) ?prs"
  let ?st1 = "sync_loop w cfg ?page ?prs (length ?prs) 0 (start_state cfg file)"
  let ?fin1 = "?st1\<lparr>cache_file := Some (cache ?st1)\<rparr>"
  let ?st2 = "sync_loop w cfg ?page ?prs (length ?prs) 0 (start_state cfg (Some ?c1))"
  let ?fin2 = "?st2\<lparr>cache_file := Some (cache ?st2)\<rparr>"
  from a have nf: "\<not> force cfg" by simp
  have c1: "cache ?st1 = ?c1"
    by (simp add: sync_loop_cache start_state_plain(1) [OF nf])
  have r1: "runSync w cfg file = Some (Returns ?fin1)"
    using a by (simp add: runSync_selected)
  have f1: "cache_file ?fin1 = Some ?c1" by (simp add: c1)
  have r2: "runSync w cfg (Some ?c1) = Some (Returns ?fin2)"
    using a by (simp add: runSync_selected)
  have e2: "(cache ?st2, calls ?st2)
      = (?c1, concat (map (pr_calls w ?page) (filter (\<lambda>pr. \<not> cache_hit ?c1 (prToStem pr)) ?prs)))"
    using sync_loop_effect [of "length ?prs" ?prs w cfg ?page "start_state cfg (Some ?c1)"]
      second_run_effect [OF nf, of w ?page "loadCache file" ?prs]
    by (simp add: start_state_plain(1) [OF nf] start_state_plain(2) loadCache_def)
  have hit: "\<forall>pr\<in>set ?prs. pr_failure w ?page pr = None \<longrightarrow> cache_hit ?c1 (prToStem pr)"
    by (simp add: cache_hit_processed)
  show "\<exists>fin1 fin2.
          runSync w cfg file = Some (Returns fin1) \<and>
          runSync w cfg (cache_file fin1) = Some (Returns fin2) \<and>
          cache_file fin2 = cache_file fin1 \<and>
          (\<forall>pr\<in>set ?prs. pr_failure w ?page pr = None \<longrightarrow> cache_hit (cache fin1) (prToStem pr)) \<and>
          calls fin2 = concat (map (pr_calls w ?page)
                         (filter (\<lambda>pr. \<not> cache_hit (cache fin1) (prToStem pr)) ?prs)) \<and>
          ((\<forall>pr\<in>set ?prs. pr_failure w ?page pr = None) \<longrightarrow> calls fin2 = [])"
  proof (rule exI [of _ ?fin1], rule exI [of _ ?fin2], intro conjI)
    show "runSync w cfg file = Some (Returns ?fin1)" by (rule r1)
    show "runSync w cfg (cache_file ?fin1) = Some (Returns ?fin2)" using r2 by (simp add: c1)
    show "cache_file ?fin2 = cache_file ?fin1" using e2 by (simp add: c1)
    show "\<forall>pr\<in>set ?prs. pr_failure w ?page pr = None \<longrightarrow> cache_hit (cache ?fin1) (prToStem pr)"
      using hit by (simp add: c1)
    show cl: "calls ?fin2 = concat (map (pr_calls w ?page)
                         (filter (\<lambda>pr. \<not> cache_hit (cache ?fin1) (prToStem pr)) ?prs))"
      using e2 by (simp add: c1)
    show "(\<forall>pr\<in>set ?prs. pr_failure w ?page pr = None) \<longrightarrow> calls ?fin2 = []"
    proof
      assume "\<forall>pr\<in>set ?prs. pr_failure w ?page pr = None"
      with hit have "filter (\<lambda>pr. \<not> cache_hit ?c1 (prToStem pr)) ?prs = []"
        by (simp add: filter_empty_conv)
      with cl show "calls ?fin2 = []" by (simp add: c1)
    qed
  qed
qed

theorem second_run_skips_done_witness:
  "(\<exists>fin1 fin2. runSync world_ok cfg_plain None = Some (Returns fin1)
      \<and> runSync world_ok cfg_plain (cache_file fin1) = Some (Returns fin2)
      \<and> cache_file fin2 = cache_file fin1
      \<and> cache_hit (cache fin1) stem_merged
      \<and> calls fin2 = [])
   \<and> calls (sync_body world_ok cfg_plain ''0a1b-2c3d'' [pr_merged] 0
               (start_state cfg_plain (Some [stem_merged \<mapsto> Flag True]))) = []"
proof (rule conjI)
  have h: "\<not> force cfg_plain \<and> truthy (NOTION_API_KEY cfg_plain) \<and> truthy (NOTION_PAGE_ID cfg_plain) \<and>
     fetchMergedPRsForUser (github world_ok) = Some (Returns [pr_merged])"
    by (simp add: cfg_keys worlds_github fetch_host_example)
  from second_run_skips_done [THEN conjunct2, THEN mp, OF h, of None]
  obtain fin1 fin2 where
    r: "runSync world_ok cfg_plain None = Some (Returns fin1)"
       "runSync world_ok cfg_plain (cache_file fin1) = Some (Returns fin2)"
       "cache_file fin2 = cache_file fin1"
    and rec: "\<forall>pr\<in>set (selected cfg_plain [pr_merged]).
             pr_failure world_ok (the (NOTION_PAGE_ID cfg_plain)) pr = None \<longrightarrow> cache_hit (cache fin1) (prToStem pr)"
    and z: "(\<forall>pr\<in>set (selected cfg_plain [pr_merged]). pr_failure world_ok (the (NOTION_PAGE_ID cfg_plain)) pr = None) \<longrightarrow>
             calls fin2 = []"
    by blast
  from z have "calls fin2 = []" by (simp add: selected_plain pr_failure_ok)
  moreover from rec have "cache_hit (cache fin1) stem_merged"
    by (simp add: selected_plain pr_failure_ok prToStem_pr_merged)
  ultimately show "\<exists>fin1 fin2. runSync world_ok cfg_plain None = Some (Returns fin1)
      \<and> runSync world_ok cfg_plain (cache_file fin1) = Some (Returns fin2)
      \<and> cache_file fin2 = cache_file fin1
      \<and> cache_hit (cache fin1) stem_merged
      \<and> calls fin2 = []" using r by blast
next
  have h: "cache_hit (cache (start_state cfg_plain (Some [stem_merged \<mapsto> Flag True])))
             (prToStem ([pr_merged] ! 0)) \<and> \<not> force cfg_plain"
    by (simp add: start_state_def loadCache_def cache_hit_def cfg_keys prToStem_pr_merged)
  from second_run_skips_done [THEN conjunct1, THEN mp, OF h]
  show "calls (sync_body world_ok cfg_plain ''0a1b-2c3d'' [pr_merged] 0
               (start_state cfg_plain (Some [stem_merged \<mapsto> Flag True]))) = []"
    by (simp add: start_state_def)
qed

section \<open>Stems and collisions\<close>

text \<open>
  Claim C9, as stated, fails: replacing the slash by an underscore forgets where the owner
  ends when the owner's name has an underscore of its own.  The repositories
  \<open>mona_acme/widgets\<close> and \<open>mona/acme_widgets\<close> give the same stem for the same
  number and merge date.
\<close>

theorem stem_collision_counterexample:
  "(repoFullName pr_owner_underscore, number pr_owner_underscore, merged_at pr_owner_underscore)
     \<noteq> (repoFullName pr_repo_underscore, number pr_repo_underscore, merged_at pr_repo_underscore)
   \<and> prToStem pr_owner_underscore = ''mona_acme_widgets_PR42_2024-03-05''
   \<and> prToStem pr_repo_underscore = ''mona_acme_widgets_PR42_2024-03-05''"
  by (simp add: pr_owner_underscore_def pr_repo_underscore_def pr_acme_def prToStem_def repo_name_or_def
      truthy_def replace_slashes_def show_nat_42)

text \<open>
  Claim C9, amended.  Take two pull requests whose repository names have the form
  \<open>owner/repo\<close> with a single slash and no underscore in the owner, and whose merge
  timestamps have at least ten characters.  If they differ in the repository name, the
  number or the first ten characters of the merge timestamp (the day), their stems differ.
\<close>

theorem stem_injective_well_formed:
  "repoFullName p = Some (o1 @ ''/'' @ r1) \<and> repoFullName q = Some (o2 @ ''/'' @ r2) \<and>
   CHR ''/'' \<notin> set (o1 @ r1 @ o2 @ r2) \<and> CHR ''_'' \<notin> set (o1 @ o2) \<and>
   merged_at p = Some m1 \<and> merged_at q = Some m2 \<and> 10 \<le> length m1 \<and> 10 \<le> length m2 \<and>
   (o1 @ ''/'' @ r1, number p, take 10 m1) \<noteq> (o2 @ ''/'' @ r2, number q, take 10 m2)
   \<longrightarrow> prToStem p \<noteq> prToStem q"
proof (intro impI notI)
  assume a: "repoFullName p = Some (o1 @ ''/'' @ r1) \<and> repoFullName q = Some (o2 @ ''/'' @ r2) \<and>
   CHR ''/'' \<notin> set (o1 @ r1 @ o2 @ r2) \<and> CHR ''_'' \<notin> set (o1 @ o2) \<and>
   merged_at p = Some m1 \<and> merged_at q = Some m2 \<and> 10 \<le> length m1 \<and> 10 \<le> length m2 \<and>
   (o1 @ ''/'' @ r1, number p, take 10 m1) \<noteq> (o2 @ ''/'' @ r2, number q, take 10 m2)"
  assume e: "prToStem p = prToStem q"
  have sp: "prToStem p = ((o1 @ ''_'' @ r1) @ ''_PR'' @ show_nat (number p) @ ''_'') @ take 10 m1"
    using a by (simp add: stem_well_formed [of p o1 r1 m1])
  have sq: "prToStem q = ((o2 @ ''_'' @ r2) @ ''_PR'' @ show_nat (number q) @ ''_'') @ take 10 m2"
    using a by (simp add: stem_well_formed [of q o2 r2 m2])
  have len: "length (take 10 m1) = length (take 10 m2)" using a by simp
  from e have "((o1 @ ''_'' @ r1) @ ''_PR'' @ show_nat (number p) @ ''_'') @ take 10 m1
             = ((o2 @ ''_'' @ r2) @ ''_PR'' @ show_nat (number q) @ ''_'') @ take 10 m2"
    unfolding sp sq .
  with len have front: "(o1 @ ''_'' @ r1) @ ''_PR'' @ show_nat (number p) @ ''_''
                       = (o2 @ ''_'' @ r2) @ ''_PR'' @ show_nat (number q) @ ''_''"
    and day: "take 10 m1 = take 10 m2"
    by (metis append_eq_append_conv)+
  from front have "((o1 @ ''_'' @ r1) @ ''_PR'' @ show_nat (number p)) @ ''_''
                 = ((o2 @ ''_'' @ r2) @ ''_PR'' @ show_nat (number q)) @ ''_''" by simp
  then have "(o1 @ ''_'' @ r1) @ ''_PR'' @ show_nat (number p) = (o2 @ ''_'' @ r2) @ ''_PR'' @ show_nat (number q)"
    by (simp only: append_same_eq)
  from number_slot [OF this] have names: "o1 @ ''_'' @ r1 = o2 @ ''_'' @ r2" and num: "number p = number q"
    by simp_all
  from owner_slot [OF names] a have "o1 = o2 \<and> r1 = r2" by simp
  with num day a show False by simp
qed

theorem stem_injective_well_formed_witness:
  "prToStem pr_acme \<noteq> prToStem (pr_acme\<lparr>number := 43\<rparr>) \<and>
   prToStem pr_acme \<noteq> prToStem (pr_acme\<lparr>repoFullName := Some ''acme/gadgets''\<rparr>) \<and>
   prToStem pr_acme \<noteq> prToStem (pr_acme\<lparr>merged_at := Some ''2024-03-06T10:00:00Z''\<rparr>)"
proof (intro conjI)
  show "prToStem pr_acme \<noteq> prToStem (pr_acme\<lparr>number := 43\<rparr>)"
    by (rule stem_injective_well_formed [THEN mp,
          of _ "''acme''" "''widgets''" _ "''acme''" "''widgets''"
             "''2024-03-05T10:00:00Z''" "''2024-03-05T10:00:00Z''"])
       (simp add: pr_acme_def)
  show "prToStem pr_acme \<noteq> prToStem (pr_acme\<lparr>repoFullName := Some ''acme/gadgets''\<rparr>)"
    by (rule stem_injective_well_formed [THEN mp,
          of _ "''acme''" "''widgets''" _ "''acme''" "''gadgets''"
             "''2024-03-05T10:00:00Z''" "''2024-03-05T10:00:00Z''"])
       (simp add: pr_acme_def)
  show "prToStem pr_acme \<noteq> prToStem (pr_acme\<lparr>merged_at := Some ''2024-03-06T10:00:00Z''\<rparr>)"
    by (rule stem_injective_well_formed [THEN mp,
          of _ "''acme''" "''widgets''" _ "''acme''" "''widgets''"
             "''2024-03-05T10:00:00Z''" "''2024-03-06T10:00:00Z''"])
       (simp add: pr_acme_def)
qed

section \<open>Markdown lines and blocks\<close>

text \<open>
  Claim C10, as stated, fails for the line that is a lone asterisk: it begins with an
  asterisk, but the bullet pattern wants at least one character behind the asterisks it
  takes, so the line becomes a paragraph block, not a bulleted list item.
\<close>

theorem lone_asterisk_counterexample:
  "begins_with_asterisk ''*''
   \<and> markdownToNotionBlocks ''*''
       = [\<lparr>btype = Paragraph, rich = [\<lparr>content = ''*'', annotations = Some False\<rparr>]\<rparr>]"
proof -
  have "line_blocks ''*'' = [mk_block Paragraph ''*'' False]"
    using line_blocks_shape [of "''*''"] by (simp add: example_trims example_shapes is_dot_def)
  then show ?thesis
    by (simp add: markdownToNotionBlocks_def begins_with_asterisk_def mk_block_def richText_short
        RICH_TEXT_LIMIT_def)
qed

text \<open>
  Claim C10, amended.  The blocks of a markdown text are those of its lines, in order.  A
  blank line gives no block, every other line exactly one block, never a divider.  For a
  line whose trimmed text has no stray carriage return: if the text is wholly wrapped in
  double asterisks around at least one character (behind an optional dash bullet), the
  block is a heading with the enclosed text; otherwise, if it begins with an asterisk and
  is not a lone asterisk, the block is a bulleted list item with the text behind the
  asterisks; otherwise the block is a paragraph with the trimmed text.  The text of three
  lines \<open>**Problem**\<close>, \<open>* bullet one\<close>, \<open>plain text\<close> gives exactly the
  heading \<open>Problem\<close>, the bulleted item \<open>bullet one\<close> and the paragraph
  \<open>plain text\<close>.
\<close>

theorem markdown_line_shapes:
  "markdownToNotionBlocks md = concat (map line_blocks (split_lines md))
   \<and> (trim line = [] \<longrightarrow> line_blocks line = [])
   \<and> (trim line \<noteq> [] \<longrightarrow> (\<exists>ty s. line_blocks line = [mk_block ty s False] \<and> ty \<noteq> Divider))
   \<and> (trim line \<noteq> [] \<and> list_all is_dot (trim line) \<longrightarrow>
        line_blocks line = [mk_block (line_type (trim line)) (line_text (trim line)) False])
   \<and> markdownToNotionBlocks summary_example
       = [mk_block Heading2 ''Problem'' False, mk_block BulletedListItem ''bullet one'' False,
          mk_block Paragraph ''plain text'' False]
   \<and> mk_block Heading2 ''Problem'' False
       = \<lparr>btype = Heading2, rich = [\<lparr>content = ''Problem'', annotations = Some False\<rparr>]\<rparr>"
proof (intro conjI impI)
  show "markdownToNotionBlocks md = concat (map line_blocks (split_lines md))"
    by (simp add: markdownToNotionBlocks_def lines_loop_concat)
  show "line_blocks line = []" if "trim line = []"
    using that by (simp add: line_blocks_def)
  show "\<exists>ty s. line_blocks line = [mk_block ty s False] \<and> ty \<noteq> Divider" if "trim line \<noteq> []"
    using that by (rule line_blocks_one)
  show "line_blocks line = [mk_block (line_type (trim line)) (line_text (trim line)) False]"
    if "trim line \<noteq> [] \<and> list_all is_dot (trim line)"
    using that by (intro line_blocks_shape) simp_all
  have "line_blocks ''**Problem**'' = [mk_block Heading2 ''Problem'' False]"
    "line_blocks ''* bullet one'' = [mk_block BulletedListItem ''bullet one'' False]"
    "line_blocks ''plain text'' = [mk_block Paragraph ''plain text'' False]"
    using line_blocks_shape [of "''**Problem**''"] line_blocks_shape [of "''* bullet one''"]
      line_blocks_shape [of "''plain text''"]
    by (simp_all add: example_trims example_shapes is_dot_def)
  then show "markdownToNotionBlocks summary_example
       = [mk_block Heading2 ''Problem'' False, mk_block BulletedListItem ''bullet one'' False,
          mk_block Paragraph ''plain text'' False]"
    by (simp add: markdownToNotionBlocks_def lines_loop_concat example_lines)
  show "mk_block Heading2 ''Problem'' False
       = \<lparr>btype = Heading2, rich = [\<lparr>content = ''Problem'', annotations = Some False\<rparr>]\<rparr>"
    by (simp add: mk_block_def richText_short RICH_TEXT_LIMIT_def)
qed

theorem markdown_line_shapes_witness:
  "line_blocks ''   '' = []
   \<and> line_blocks ''  * bullet one'' = [mk_block BulletedListItem ''bullet one'' False]
   \<and> line_blocks ''- **Approach**'' = [mk_block Heading2 ''Approach'' False]
   \<and> (\<exists>ty s. line_blocks ''plain text'' = [mk_block ty s False] \<and> ty \<noteq> Divider)"
proof -
  have t: "trim ''   '' = []" "trim ''  * bullet one'' = ''* bullet one''"
    "trim ''- **Approach**'' = ''- **Approach**''"
    by (simp_all add: trim_def is_space_def)
  have s: "line_type ''- **Approach**'' = Heading2" "line_text ''- **Approach**'' = ''Approach''"
    by (simp_all add: line_type_def line_text_def is_wrapped_def strip_dash_def heading_text_def
        is_space_def)
  have ne: "trim ''plain text'' \<noteq> []" by (simp add: example_trims)
  note m = markdown_line_shapes [of "[]"]
  note one = m [of "''plain text''", THEN conjunct2, THEN conjunct2, THEN conjunct1, THEN mp, OF ne]
  from m [of "''   ''", THEN conjunct2, THEN conjunct1]
    m [of "''  * bullet one''", THEN conjunct2, THEN conjunct2, THEN conjunct2, THEN conjunct1]
    m [of "''- **Approach**''", THEN conjunct2, THEN conjunct2, THEN conjunct2, THEN conjunct1]
  have "line_blocks ''   '' = []
   \<and> line_blocks ''  * bullet one'' = [mk_block BulletedListItem ''bullet one'' False]
   \<and> line_blocks ''- **Approach**'' = [mk_block Heading2 ''Approach'' False]"
    by (simp add: t s example_shapes is_dot_def)
  with one show ?thesis by blast
qed

end
